theory Spec2Isabelle
  imports Complex_Main "HOL-Library.Sublist" "HOL-Library.AList" "HOL-Library.Char_ord"
    "HOL-Library.List_Lexorder" "HOL-Library.Product_Lexorder"
begin

section \<open>Python values used by the program\<close>

text \<open>
  The strings that the program builds and compares are lists of 8-bit characters, read
  as the code points below 256; the one letter of the program's messages outside ASCII
  (n with tilde, code point 241) is a single character. The HTML text has a type of its
  own, with every code point. Python's unbounded integers are \<open>int\<close>.
\<close>

datatype error =
    ValueError string
  | KeyError string
  | TypeError
  | ConnectionError string
  | BadZipFile
  | UnicodeDecodeError

definition digit_char :: "nat \<Rightarrow> char" where
  "digit_char d = char_of (48 + d)"

text \<open>The decimal digits of a natural number, most significant first.\<close>

function nat_digits :: "nat \<Rightarrow> string" where
  "nat_digits n =
     (if n < 10 then [digit_char n] else nat_digits (n div 10) @ [digit_char (n mod 10)])"
  by pat_completeness auto
termination
  by (relation "measure id") auto

declare nat_digits.simps [simp del]

text \<open>\<^verbatim>\<open>str(i)\<close> and \<^verbatim>\<open>f"{i}"\<close> for an integer.\<close>

definition str_int :: "int \<Rightarrow> string" where
  "str_int i = (if i < 0 then CHR ''-'' # nat_digits (nat (- i)) else nat_digits (nat i))"

text \<open>
  \<^verbatim>\<open>f"{i:02}"\<close>: the sign first, then zeros, then the digits, at least two characters
  in all.
\<close>

definition format_02 :: "int \<Rightarrow> string" where
  "format_02 i =
     (let sign = (if i < 0 then ''-'' else '''');
          ds = nat_digits (nat \<bar>i\<bar>)
      in sign @ replicate (2 - length sign - length ds) CHR ''0'' @ ds)"

text \<open>\<^verbatim>\<open>needle in haystack\<close> for strings.\<close>

fun str_contains :: "string \<Rightarrow> string \<Rightarrow> bool" where
  "str_contains needle [] = (needle = [])"
| "str_contains needle (c # cs) =
     (take (length needle) (c # cs) = needle \<or> str_contains needle cs)"

section \<open>The URL catalog (class UrlEMT)\<close>

definition EMT :: string where
  "EMT = ''https://opendata.emtmadrid.es/''"

subsection \<open>get_name_csv\<close>

definition month_name_mapping :: "(int \<times> string) list" where
  "month_name_mapping =
     [(1, ''January''), (2, ''February''), (3, ''March''), (4, ''April''),
      (5, ''May''), (6, ''June''), (7, ''July''), (8, ''August''),
      (9, ''September''), (10, ''October''), (11, ''November''), (12, ''December'')]"

text \<open>A month that is not a key of the table raises \<^verbatim>\<open>KeyError\<close>.\<close>

definition get_name_csv :: "int \<Rightarrow> int \<Rightarrow> error + string" where
  "get_name_csv month year =
     (case map_of month_name_mapping month of
        None \<Rightarrow> Inl (KeyError (str_int month))
      | Some month_name \<Rightarrow>
          Inr (''trips_'' @ str_int year @ ''_'' @ format_02 month @ ''_'' @ month_name @ ''.csv''))"

text \<open>
  The words of the specification: the twelve English month names in calendar order, and
  a number below 100 written with exactly two digits.
\<close>

definition english_month_names :: "string list" where
  "english_month_names =
     [''January'', ''February'', ''March'', ''April'', ''May'', ''June'', ''July'',
      ''August'', ''September'', ''October'', ''November'', ''December'']"

definition two_digits :: "int \<Rightarrow> string" where
  "two_digits n = [digit_char (nat n div 10), digit_char (nat n mod 10)]"

subsection \<open>get_url\<close>

text \<open>
  The stored set \<^verbatim>\<open>enlaces_validos\<close> is given as the list of its elements in the order
  the \<^verbatim>\<open>for\<close> loop visits them.
\<close>

fun first_url_containing :: "string \<Rightarrow> string list \<Rightarrow> string option" where
  "first_url_containing search_str [] = None"
| "first_url_containing search_str (url # urls) =
     (if str_contains search_str url then Some url
      else first_url_containing search_str urls)"

definition search_str :: "int \<Rightarrow> int \<Rightarrow> string" where
  "search_str month year = str_int year @ ''_'' @ format_02 month"

definition no_link_message :: "int \<Rightarrow> int \<Rightarrow> string" where
  "no_link_message month year =
     ''No existe un enlace valido para el mes '' @ str_int month @
     '' del a'' @ [CHR 0xF1] @ ''o '' @ str_int year"

definition get_url :: "string list \<Rightarrow> int \<Rightarrow> int \<Rightarrow> error + string" where
  "get_url enlaces_validos month year =
     (if \<not> (1 \<le> month \<and> month \<le> 12) then
        Inl (ValueError (''El mes debe ser un n'' @ [CHR 0xFA] @ ''mero entre 1 y 12.''))
      else if year \<notin> set [21, 22, 23] then
        Inl (ValueError (''El a'' @ [CHR 0xF1] @ ''o debe ser 21, 22 o 23.''))
      else
        (case first_url_containing (search_str month year) enlaces_validos of
           Some url \<Rightarrow> Inr url
         | None \<Rightarrow> Inl (ValueError (no_link_message month year))))"

subsection \<open>get_links\<close>

text \<open>
  The HTML text comes from the network and may hold any character. A character of it
  is a code point below 256 (\<open>Latin\<close>) or a higher code point (\<open>Wide\<close>). The regular
  expression class \<^verbatim>\<open>\d\<close> holds the decimal digits of the Unicode database of the
  interpreter: below 256 these are \<open>0..9\<close>, and which of the higher code points are
  decimal digits is the parameter \<open>wide_digit\<close> of the matchers.
\<close>

datatype pychar = Latin char | Wide nat

definition latin :: "string \<Rightarrow> pychar list" where
  "latin s = map Latin s"

text \<open>
  The pattern of \<open>get_links\<close> is
  \<^verbatim>\<open>(getattachment/.*?trips_\d{2}_\d{2}_[a-zA-Z]+-csv\.aspx)\<close>.
  Each matcher below takes the text at the current position and returns what is left
  after the part it matched. \<^verbatim>\<open>.\<close> matches every character but the line feed.
\<close>

definition is_digit :: "(nat \<Rightarrow> bool) \<Rightarrow> pychar \<Rightarrow> bool" where
  "is_digit wide_digit c =
     (case c of Latin a \<Rightarrow> a \<in> set ''0123456789'' | Wide n \<Rightarrow> wide_digit n)"

definition is_letter :: "pychar \<Rightarrow> bool" where
  "is_letter c =
     (case c of
        Latin a \<Rightarrow> a \<in> set ''abcdefghijklmnopqrstuvwxyzABCDEFGHIJKLMNOPQRSTUVWXYZ''
      | Wide n \<Rightarrow> False)"

definition lit :: "string \<Rightarrow> pychar list \<Rightarrow> pychar list option" where
  "lit l s =
     (if take (length l) s = latin l then Some (drop (length l) s) else None)"

fun digit :: "(nat \<Rightarrow> bool) \<Rightarrow> pychar list \<Rightarrow> pychar list option" where
  "digit wide_digit [] = None"
| "digit wide_digit (c # cs) = (if is_digit wide_digit c then Some cs else None)"

text \<open>
  \<^verbatim>\<open>[a-zA-Z]+\<close> takes the longest run of letters. The character after the run is no
  letter, and the pattern goes on with \<open>-\<close>, so no shorter run can lead to a match.
\<close>

definition letters1 :: "pychar list \<Rightarrow> pychar list option" where
  "letters1 s = (if takeWhile is_letter s = [] then None else Some (dropWhile is_letter s))"

definition match_name :: "(nat \<Rightarrow> bool) \<Rightarrow> pychar list \<Rightarrow> pychar list option" where
  "match_name wide_digit s =
     Option.bind (lit ''trips_'' s) (\<lambda>s.
     Option.bind (digit wide_digit s) (\<lambda>s.
     Option.bind (digit wide_digit s) (\<lambda>s.
     Option.bind (lit ''_'' s) (\<lambda>s.
     Option.bind (digit wide_digit s) (\<lambda>s.
     Option.bind (digit wide_digit s) (\<lambda>s.
     Option.bind (lit ''_'' s) (\<lambda>s.
     Option.bind (letters1 s) (\<lambda>s.
     lit ''-csv.aspx'' s))))))))"

text \<open>
  The lazy \<^verbatim>\<open>.*?\<close>: the rest of the pattern is tried first where the text stands, and
  only when it fails is one more character (no line feed) given to \<^verbatim>\<open>.*?\<close>.
\<close>

fun match_lazy :: "(nat \<Rightarrow> bool) \<Rightarrow> pychar list \<Rightarrow> pychar list option" where
  "match_lazy wide_digit [] = match_name wide_digit []"
| "match_lazy wide_digit (c # cs) =
     (case match_name wide_digit (c # cs) of
        Some rest \<Rightarrow> Some rest
      | None \<Rightarrow> if c = Latin (CHR 0x0A) then None else match_lazy wide_digit cs)"

text \<open>The match of the whole pattern at the start of the text, when there is one.\<close>

definition match_at :: "(nat \<Rightarrow> bool) \<Rightarrow> pychar list \<Rightarrow> pychar list option" where
  "match_at wide_digit s =
     (case Option.bind (lit ''getattachment/'' s) (match_lazy wide_digit) of
        None \<Rightarrow> None
      | Some rest \<Rightarrow> Some (take (length s - length rest) s))"

text \<open>
  \<^verbatim>\<open>re.findall\<close>: the text is scanned from left to right; a match is taken where it
  is found and the scan resumes behind it, otherwise the scan moves on by one character.
\<close>

function findall :: "(nat \<Rightarrow> bool) \<Rightarrow> pychar list \<Rightarrow> pychar list list" where
  "findall wide_digit [] = []"
| "findall wide_digit (c # cs) =
     (case match_at wide_digit (c # cs) of
        Some link \<Rightarrow> link # findall wide_digit (drop (length link - 1) cs)
      | None \<Rightarrow> findall wide_digit cs)"
  by pat_completeness auto
termination
  by (relation "measure (\<lambda>(wide_digit, s). length s)") auto

definition get_links :: "(nat \<Rightarrow> bool) \<Rightarrow> pychar list \<Rightarrow> pychar list set" where
  "get_links wide_digit html =
     set (map (\<lambda>link. latin EMT @ link) (findall wide_digit html))"

text \<open>
  The language of the pattern, written out. \<open>regex_pattern\<close> follows the regular
  expression of the source; \<open>spec_pattern\<close> follows the words of the specification,
  where the part after \<open>getattachment/\<close> is anything.
\<close>

definition name_pattern :: "(nat \<Rightarrow> bool) \<Rightarrow> pychar list \<Rightarrow> bool" where
  "name_pattern wide_digit w \<longleftrightarrow>
     (\<exists>d1 d2 d3 d4 ls.
        w = latin ''trips_'' @ [d1, d2] @ latin ''_'' @ [d3, d4] @ latin ''_'' @ ls
              @ latin ''-csv.aspx'' \<and>
        is_digit wide_digit d1 \<and> is_digit wide_digit d2 \<and>
        is_digit wide_digit d3 \<and> is_digit wide_digit d4 \<and>
        ls \<noteq> [] \<and> list_all is_letter ls)"

definition regex_pattern :: "(nat \<Rightarrow> bool) \<Rightarrow> pychar list \<Rightarrow> bool" where
  "regex_pattern wide_digit w \<longleftrightarrow>
     (\<exists>a n. w = latin ''getattachment/'' @ a @ n \<and> Latin (CHR 0x0A) \<notin> set a \<and>
            name_pattern wide_digit n)"

definition spec_pattern :: "(nat \<Rightarrow> bool) \<Rightarrow> pychar list \<Rightarrow> bool" where
  "spec_pattern wide_digit w \<longleftrightarrow>
     (\<exists>a n. w = latin ''getattachment/'' @ a @ n \<and> name_pattern wide_digit n)"

text \<open>
  The scan in words. A first match of a text is a substring in the language of the
  pattern such that no such substring starts further left and none that starts at the
  same place is shorter. The matches of a scan are a first match of the text followed
  by the matches of a scan of the text behind it, and there are none when no substring
  of the text is in the language.
\<close>

definition first_match ::
  "(nat \<Rightarrow> bool) \<Rightarrow> pychar list \<Rightarrow> pychar list \<Rightarrow> pychar list \<Rightarrow> pychar list \<Rightarrow> bool" where
  "first_match wide_digit s before w behind \<longleftrightarrow>
     s = before @ w @ behind \<and> regex_pattern wide_digit w \<and>
     (\<forall>before' w' behind'.
        s = before' @ w' @ behind' \<and> regex_pattern wide_digit w' \<longrightarrow>
        length before < length before' \<or>
        (length before = length before' \<and> length w \<le> length w'))"

inductive scan_matches :: "(nat \<Rightarrow> bool) \<Rightarrow> pychar list \<Rightarrow> pychar list list \<Rightarrow> bool"
  for wide_digit :: "nat \<Rightarrow> bool" where
  no_match: "(\<forall>w. sublist w s \<longrightarrow> \<not> regex_pattern wide_digit w) \<Longrightarrow>
     scan_matches wide_digit s []"
| match: "first_match wide_digit s before w behind \<Longrightarrow> scan_matches wide_digit behind ws \<Longrightarrow>
     scan_matches wide_digit s (w # ws)"

subsection \<open>The network, select_valid_urls and get_csv\<close>

text \<open>
  A response carries its status code, its body as text and its body as bytes. The body
  as bytes is given by what \<^verbatim>\<open>zipfile\<close> and the UTF-8 decoder make of it: \<open>None\<close> when it
  is no ZIP archive, otherwise the entries of the archive by name, each with its decoded
  text when it is valid UTF-8. The network is what a GET to each URL answers (or the
  exception it raises) and the list of the requests issued so far.
\<close>

record response =
  status_code :: int
  text_body :: "pychar list"
  archive :: "(string \<times> string option) list option"

record network =
  serve :: "string \<Rightarrow> error + response"
  requested :: "string list"

definition requests_get :: "string \<Rightarrow> network \<Rightarrow> (error + response) \<times> network" where
  "requests_get url net = (serve net url, net\<lparr>requested := requested net @ [url]\<rparr>)"

definition connection_message :: "string \<Rightarrow> int \<Rightarrow> string" where
  "connection_message url code =
     ''Failed to connect to '' @ url @ '', status code: '' @ str_int code"

definition GENERAL_URL :: string where
  "GENERAL_URL = ''https://opendata.emtmadrid.es/Datos-estaticos/Datos-generales-(1)''"

definition select_valid_urls ::
  "(nat \<Rightarrow> bool) \<Rightarrow> network \<Rightarrow> (error + pychar list set) \<times> network" where
  "select_valid_urls wide_digit net =
     (case requests_get GENERAL_URL net of
        (Inl e, net') \<Rightarrow> (Inl e, net')
      | (Inr resp, net') \<Rightarrow>
          if status_code resp \<noteq> 200 then
            (Inl (ConnectionError (connection_message GENERAL_URL (status_code resp))), net')
          else (Inr (get_links wide_digit (text_body resp)), net'))"

definition get_csv ::
  "string list \<Rightarrow> int \<Rightarrow> int \<Rightarrow> network \<Rightarrow> (error + string) \<times> network" where
  "get_csv enlaces_validos month year net =
     (case get_url enlaces_validos month year of
        Inl e \<Rightarrow> (Inl e, net)
      | Inr url \<Rightarrow>
         (case requests_get url net of
            (Inl e, net') \<Rightarrow> (Inl e, net')
          | (Inr resp, net') \<Rightarrow>
              if status_code resp \<noteq> 200 then
                (Inl (ConnectionError (connection_message url (status_code resp))), net')
              else
                (case archive resp of
                   None \<Rightarrow> (Inl BadZipFile, net')
                 | Some entries \<Rightarrow>
                    (case get_name_csv month year of
                       Inl e \<Rightarrow> (Inl e, net')
                     | Inr name_csv \<Rightarrow>
                        (case map_of entries name_csv of
                           None \<Rightarrow> (Inl (KeyError name_csv), net')
                         | Some None \<Rightarrow> (Inl UnicodeDecodeError, net')
                         | Some (Some content_str) \<Rightarrow> (Inr content_str, net'))))))"

text \<open>
  A page with two links on one line, a link broken by a line feed, and a link whose
  year is written with the Arabic-Indic digits two (code point 1634), which are decimal
  digits in every version of the Unicode database.
\<close>

definition two_links_html :: "pychar list" where
  "two_links_html =
     latin ''<a href=/getattachment/a/trips_22_11_November-csv.aspx>11</a> <a href=/getattachment/b/trips_22_12_December-csv.aspx>12</a>''"

definition broken_link_html :: "pychar list" where
  "broken_link_html =
     latin ''getattachment/x'' @ [Latin (CHR 0x0A)] @ latin ''trips_22_11_November-csv.aspx''"

definition arabic_indic :: "nat \<Rightarrow> bool" where
  "arabic_indic n \<longleftrightarrow> 1632 \<le> n \<and> n \<le> 1641"

definition arabic_year_html :: "pychar list" where
  "arabic_year_html =
     latin ''<a href=/getattachment/c/trips_'' @ [Wide 1634, Wide 1634] @
     latin ''_11_November-csv.aspx>''"

section \<open>Tables (pandas DataFrame)\<close>

text \<open>
  A cell holds a missing value (\<open>NaN\<close>, which stands for \<^verbatim>\<open>NaT\<close> in a column of timestamps
  too), an integer, a float, a string or a timestamp. Floats are the rational numbers
  they stand for: rounding is outside the model, and so are the infinities. A timestamp
  is the number of nanoseconds since 1970-01-01 00:00, as pandas stores it.

  A table is its row index (the column \<^verbatim>\<open>fecha\<close> of timestamps, \<open>None\<close> for \<^verbatim>\<open>NaT\<close>) and its
  columns in order, each a name with one cell for every row.
\<close>

datatype cell = NaN | IntV int | FloatV rat | StrV string | TimeV int

record dataframe =
  index :: "int option list"
  columns :: "(string \<times> cell list) list"

definition well_formed :: "dataframe \<Rightarrow> bool" where
  "well_formed df \<longleftrightarrow>
     distinct (map fst (columns df)) \<and>
     list_all (\<lambda>(name, vs). length vs = length (index df)) (columns df)"

text \<open>\<^verbatim>\<open>df[name]\<close> raises \<^verbatim>\<open>KeyError\<close> when there is no such column.\<close>

definition get_column :: "dataframe \<Rightarrow> string \<Rightarrow> error + cell list" where
  "get_column df name =
     (case map_of (columns df) name of None \<Rightarrow> Inl (KeyError name) | Some vs \<Rightarrow> Inr vs)"

text \<open>
  \<^verbatim>\<open>df[name] = vs\<close> replaces the column where it stands, or appends a new column
  behind the others.
\<close>

definition set_column :: "dataframe \<Rightarrow> string \<Rightarrow> cell list \<Rightarrow> dataframe" where
  "set_column df name vs = df\<lparr>columns := AList.update name vs (columns df)\<rparr>"

text \<open>\<^verbatim>\<open>df[mask]\<close> keeps the rows where the mask \<open>keep\<close> holds.\<close>

definition select_rows :: "bool list \<Rightarrow> 'a list \<Rightarrow> 'a list" where
  "select_rows keep xs = map snd (filter fst (zip keep xs))"

definition filter_frame :: "bool list \<Rightarrow> dataframe \<Rightarrow> dataframe" where
  "filter_frame keep df =
     \<lparr>index = select_rows keep (index df),
      columns = map (\<lambda>(name, vs). (name, select_rows keep vs)) (columns df)\<rparr>"

text \<open>
  \<^verbatim>\<open>dropna(how='all')\<close>: a row stays when some column holds a value in it. The index is
  no column.
\<close>

definition notna_any :: "dataframe \<Rightarrow> bool list" where
  "notna_any df =
     foldr (\<lambda>(name, vs) acc. map2 (\<or>) (map (\<lambda>v. v \<noteq> NaN) vs) acc) (columns df)
       (replicate (length (index df)) False)"

definition dropna_all :: "dataframe \<Rightarrow> dataframe" where
  "dropna_all df = filter_frame (notna_any df) df"

subsection \<open>Strings of cells\<close>

text \<open>
  \<^verbatim>\<open>str\<close> of a cell. What Python prints for a float and pandas for a timestamp is the
  work of their libraries: it is the parameter \<open>fmt\<close>.
\<close>

definition py_str :: "(cell \<Rightarrow> string) \<Rightarrow> cell \<Rightarrow> string" where
  "py_str fmt c =
     (case c of
        NaN \<Rightarrow> ''nan''
      | IntV i \<Rightarrow> str_int i
      | StrV s \<Rightarrow> s
      | FloatV q \<Rightarrow> fmt c
      | TimeV t \<Rightarrow> fmt c)"

text \<open>
  \<^verbatim>\<open>s.replace(old, new)\<close>: every occurrence of \<open>old\<close>, from left to right and without
  overlap. For an empty \<open>old\<close>, \<open>new\<close> is put before every character and at the end.
\<close>

function str_replace :: "string \<Rightarrow> string \<Rightarrow> string \<Rightarrow> string" where
  "str_replace old new [] = (if old = [] then new else [])"
| "str_replace old new (c # cs) =
     (if old = [] then new @ c # str_replace old new cs
      else if take (length old) (c # cs) = old then
        new @ str_replace old new (drop (length old - 1) cs)
      else c # str_replace old new cs)"
  by pat_completeness auto
termination
  by (relation "measure (\<lambda>(old, new, s). length s)") auto

section \<open>The trip dataset (class BiciMad)\<close>

record bicimad =
  month_of :: int
  year_of :: int
  data :: dataframe

subsection \<open>clean\<close>

text \<open>
  The empty rows are dropped, then each of the four identifier columns that the table
  has is replaced by the strings of its cells with \<open>.0\<close> replaced by the empty string.
  A table has no types of columns here: where pandas refuses \<^verbatim>\<open>.str\<close> on a column that
  is left without rows and with a numeric type, the model returns the table without
  rows.
\<close>

definition col_names :: "string list" where
  "col_names = [''fleet'', ''idBike'', ''station_lock'', ''station_unlock'']"

definition clean_value :: "(cell \<Rightarrow> string) \<Rightarrow> cell \<Rightarrow> cell" where
  "clean_value fmt v = StrV (str_replace ''.0'' [] (py_str fmt v))"

definition clean_column :: "(cell \<Rightarrow> string) \<Rightarrow> dataframe \<Rightarrow> string \<Rightarrow> dataframe" where
  "clean_column fmt df col_name =
     (case map_of (columns df) col_name of
        None \<Rightarrow> df
      | Some vs \<Rightarrow> set_column df col_name (map (clean_value fmt) vs))"

definition clean :: "(cell \<Rightarrow> string) \<Rightarrow> dataframe \<Rightarrow> dataframe" where
  "clean fmt df = foldl (clean_column fmt) (dropna_all df) col_names"

text \<open>
  The constructor. The table \<open>raw\<close> is what \<open>get_data\<close> returns: the download is
  \<open>get_csv\<close> above, and reading the CSV text into a table is the work of pandas.
\<close>

definition BiciMad :: "(cell \<Rightarrow> string) \<Rightarrow> int \<Rightarrow> int \<Rightarrow> dataframe \<Rightarrow> bicimad" where
  "BiciMad fmt month year raw = \<lparr>month_of = month, year_of = year, data = clean fmt raw\<rparr>"

text \<open>The fifteen columns that \<open>csv_to_df\<close> selects, in its order.\<close>

definition csv_columns :: "string list" where
  "csv_columns =
     [''idBike'', ''fleet'', ''trip_minutes'', ''geolocation_unlock'', ''address_unlock'',
      ''unlock_date'', ''locktype'', ''unlocktype'', ''geolocation_lock'', ''address_lock'',
      ''lock_date'', ''station_unlock'', ''unlock_station_name'', ''station_lock'',
      ''lock_station_name'']"

definition raw_table :: "dataframe \<Rightarrow> bool" where
  "raw_table df \<longleftrightarrow> map fst (columns df) = csv_columns \<and> well_formed df"

subsection \<open>Grouping and sums\<close>

text \<open>
  \<^verbatim>\<open>groupby(keys)\<close> leaves out the rows whose key is missing and lists the groups by
  ascending key. The keys of a column of cells are listed in the order of their first
  appearance instead: only the sizes of those groups are used.
\<close>

definition group_keys :: "'k::linorder option list \<Rightarrow> 'k list" where
  "group_keys keys = sort (remdups (List.map_filter id keys))"

definition groupby_size :: "'k::linorder option list \<Rightarrow> ('k \<times> nat) list" where
  "groupby_size keys = map (\<lambda>k. (k, count_list keys (Some k))) (group_keys keys)"

definition group_sizes :: "cell list \<Rightarrow> (cell \<times> nat) list" where
  "group_sizes keys =
     map (\<lambda>k. (k, count_list keys k)) (remdups (filter (\<lambda>k. k \<noteq> NaN) keys))"

text \<open>
  \<^verbatim>\<open>sum()\<close> skips the missing values. On a column that holds anything but numbers and
  missing values, the sum or the division that follows it raises; the model has one
  exception for all these cases.
\<close>

fun summable :: "cell \<Rightarrow> bool" where
  "summable (StrV s) = False"
| "summable (TimeV t) = False"
| "summable c = True"

fun num_value :: "cell \<Rightarrow> rat" where
  "num_value (IntV i) = of_int i"
| "num_value (FloatV q) = q"
| "num_value c = 0"

definition column_sum :: "cell list \<Rightarrow> error + rat" where
  "column_sum vals =
     (if list_all summable vals then Inr (sum_list (map num_value vals)) else Inl TypeError)"

definition groupby_sum ::
  "'k::linorder option list \<Rightarrow> cell list \<Rightarrow> error + ('k \<times> rat) list" where
  "groupby_sum keys vals =
     (if list_all summable vals then
        Inr (map (\<lambda>k. (k, sum_list (map (num_value \<circ> snd)
                                  (filter (\<lambda>(k', v). k' = Some k) (zip keys vals)))))
                 (group_keys keys))
      else Inl TypeError)"

subsection \<open>get_most_popular_stations and get_uses_from_most_populars\<close>

text \<open>
  A method is a function from the instance to its result and the instance after the
  call. \<open>Inl\<close> is the exception raised.
\<close>

text \<open>\<^verbatim>\<open>max()\<close> of the counts; it is missing when there is no group.\<close>

definition max_count :: "(cell \<times> nat) list \<Rightarrow> nat option" where
  "max_count result = (if result = [] then None else Some (Max (set (map snd result))))"

definition get_most_popular_stations :: "bicimad \<Rightarrow> (error + cell set) \<times> bicimad" where
  "get_most_popular_stations self =
     (let df = data self in
      case get_column df ''station_unlock'' of
        Inl e \<Rightarrow> (Inl e, self)
      | Inr stations \<Rightarrow>
         (let result = group_sizes stations;
              top = filter (\<lambda>(k, n). Some n = max_count result) result;
              top_stations = map fst top;
              filtered_df = filter_frame (map (\<lambda>s. s \<in> set top_stations) stations) df
          in case get_column filtered_df ''address_unlock'' of
               Inl e \<Rightarrow> (Inl e, self)
             | Inr address_unlock_top \<Rightarrow> (Inr (set address_unlock_top), self)))"

definition get_uses_from_most_populars :: "bicimad \<Rightarrow> (error + nat) \<times> bicimad" where
  "get_uses_from_most_populars self =
     (let df = data self in
      case get_most_popular_stations self of
        (Inl e, self') \<Rightarrow> (Inl e, self')
      | (Inr top_adresses, self') \<Rightarrow>
         (case get_column df ''address_unlock'' of
            Inl e \<Rightarrow> (Inl e, self')
          | Inr addresses \<Rightarrow>
              (Inr (length (index (filter_frame (map (\<lambda>a. a \<in> top_adresses) addresses) df))),
               self')))"

subsection \<open>resume\<close>

datatype pyval = PInt int | PNum rat | PSet "cell set"

definition resume :: "bicimad \<Rightarrow> (error + (string \<times> pyval) list) \<times> bicimad" where
  "resume self =
     (case get_column (data self) ''trip_minutes'' of
        Inl e \<Rightarrow> (Inl e, self)
      | Inr minutes \<Rightarrow>
         (case column_sum minutes of
            Inl e \<Rightarrow> (Inl e, self)
          | Inr total_minutes \<Rightarrow>
             (case get_most_popular_stations self of
                (Inl e, self1) \<Rightarrow> (Inl e, self1)
              | (Inr popular, self1) \<Rightarrow>
                 (case get_uses_from_most_populars self1 of
                    (Inl e, self2) \<Rightarrow> (Inl e, self2)
                  | (Inr uses, self2) \<Rightarrow>
                      (Inr [(''year'', PInt (year_of self)),
                            (''month'', PInt (month_of self)),
                            (''total_uses'', PInt (int (length (index (data self))))),
                            (''total_time'', PNum (total_minutes / 60)),
                            (''most_popular_station'', PSet popular),
                            (''uses_from_most_popular'', PInt (int uses))],
                       self2)))))"

subsection \<open>day_time, weekday_time, total_usage_day, total_usage_day_station_unlock\<close>

definition day_time :: "bicimad \<Rightarrow> (error + (int \<times> rat) list) \<times> bicimad" where
  "day_time self =
     (let data = data self in
      case get_column data ''trip_minutes'' of
        Inl e \<Rightarrow> (Inl e, self)
      | Inr minutes \<Rightarrow>
         (case groupby_sum (index data) minutes of
            Inl e \<Rightarrow> (Inl e, self)
          | Inr totals \<Rightarrow> (Inr (map (\<lambda>(k, s). (k, s / 60)) totals), self)))"

definition ns_per_day :: int where
  "ns_per_day = 86400000000000"

text \<open>The calendar day of a timestamp, in days since 1970-01-01, a Thursday.\<close>

definition date_of :: "int \<Rightarrow> int" where
  "date_of t = t div ns_per_day"

definition day_names :: "string list" where
  "day_names =
     [''Monday'', ''Tuesday'', ''Wednesday'', ''Thursday'', ''Friday'', ''Saturday'', ''Sunday'']"

definition day_name :: "int \<Rightarrow> string" where
  "day_name t = day_names ! nat ((date_of t + 3) mod 7)"

definition mapping :: "(string \<times> string) list" where
  "mapping =
     [(''Monday'', ''L''), (''Tuesday'', ''M''), (''Wednesday'', ''X''), (''Thursday'', ''J''),
      (''Friday'', ''V''), (''Saturday'', ''S''), (''Sunday'', ''D'')]"

text \<open>
  \<^verbatim>\<open>mapping[x]\<close> for the day name of one row. The day name of \<^verbatim>\<open>NaT\<close> is missing, and a
  missing value is no key of \<open>mapping\<close>.
\<close>

definition dia_of :: "int option \<Rightarrow> error + string" where
  "dia_of i =
     (case i of
        None \<Rightarrow> Inl (KeyError ''nan'')
      | Some t \<Rightarrow>
         (case map_of mapping (day_name t) of
            None \<Rightarrow> Inl (KeyError (day_name t))
          | Some letter \<Rightarrow> Inr letter))"

fun collect :: "(error + 'a) list \<Rightarrow> error + 'a list" where
  "collect [] = Inr []"
| "collect (Inl e # rs) = Inl e"
| "collect (Inr x # rs) = (case collect rs of Inl e \<Rightarrow> Inl e | Inr xs \<Rightarrow> Inr (x # xs))"

text \<open>
  \<open>weekday_time\<close> assigns the column \<^verbatim>\<open>dia\<close> to \<^verbatim>\<open>data\<close>, which is the table of the
  instance itself, not a copy.
\<close>

definition weekday_time :: "bicimad \<Rightarrow> (error + (string \<times> rat) list) \<times> bicimad" where
  "weekday_time self =
     (case collect (map dia_of (index (data self))) of
        Inl e \<Rightarrow> (Inl e, self)
      | Inr dia \<Rightarrow>
         (let self' = self\<lparr>data := set_column (data self) ''dia'' (map StrV dia)\<rparr>;
              data = data self'
          in case get_column data ''trip_minutes'' of
               Inl e \<Rightarrow> (Inl e, self')
             | Inr minutes \<Rightarrow>
                (case groupby_sum (map Some dia) minutes of
                   Inl e \<Rightarrow> (Inl e, self')
                 | Inr totals \<Rightarrow> (Inr (map (\<lambda>(k, s). (k, s / 60)) totals), self'))))"

text \<open>
  \<open>total_usage_day\<close> groups by \<^verbatim>\<open>data.index.date\<close>; the days of the result are
  timestamps again, at midnight.
\<close>

definition total_usage_day :: "bicimad \<Rightarrow> (error + (int \<times> nat) list) \<times> bicimad" where
  "total_usage_day self =
     (let data = data self in
      case get_column data ''idBike'' of
        Inl e \<Rightarrow> (Inl e, self)
      | Inr bikes \<Rightarrow>
          (Inr (map (\<lambda>(d, n). (d * ns_per_day, n))
                  (groupby_size (map (map_option date_of) (index data)))),
           self))"

text \<open>
  \<open>total_usage_day_station_unlock\<close> counts the rows of every day and unlock station
  that occur together. The result is a table of its own, with the days as index and
  the columns \<^verbatim>\<open>station_unlock\<close> and \<^verbatim>\<open>count\<close>; the groups are listed by ascending day
  and, within a day, by ascending station. The stations of a cleaned table are strings,
  ordered as Python orders strings; where a column holds keys of several types, pandas
  puts the numbers before the strings, and so does \<open>station_order\<close>.
\<close>

definition station_order :: "cell \<Rightarrow> nat \<times> rat \<times> string" where
  "station_order c =
     (case c of
        IntV i \<Rightarrow> (0, of_int i, [])
      | FloatV q \<Rightarrow> (0, q, [])
      | StrV s \<Rightarrow> (1, 0, s)
      | TimeV t \<Rightarrow> (2, of_int t, [])
      | NaN \<Rightarrow> (3, 0, []))"

definition day_station_keys :: "int option list \<Rightarrow> cell list \<Rightarrow> (int \<times> cell) list" where
  "day_station_keys idx stations =
     sort_key (\<lambda>(d, s). (d, station_order s)) (remdups (List.map_filter
       (\<lambda>(i, s). case i of None \<Rightarrow> None
                 | Some t \<Rightarrow> if s = NaN then None else Some (date_of t * ns_per_day, s))
       (zip idx stations)))"

definition total_usage_day_station_unlock :: "bicimad \<Rightarrow> (error + dataframe) \<times> bicimad" where
  "total_usage_day_station_unlock self =
     (let df = data self in
      case get_column df ''station_unlock'' of
        Inl e \<Rightarrow> (Inl e, self)
      | Inr stations \<Rightarrow>
         (let keys = day_station_keys (index df) stations;
              rows = zip (map (map_option (\<lambda>t. date_of t * ns_per_day)) (index df)) stations
          in (Inr \<lparr>index = map (Some \<circ> fst) keys,
                   columns =
                     [(''station_unlock'', map snd keys),
                      (''count'', map (\<lambda>(d, s). IntV (int (count_list rows (Some d, s)))) keys)]\<rparr>,
              self)))"

text \<open>
  The words of the specification for \<open>hours_per_day\<close>: the rows are grouped by the
  calendar day of their timestamp, and every day has the sum of its minutes
  divided by 60.
\<close>

definition hours_per_calendar_day :: "dataframe \<Rightarrow> error + (int \<times> rat) list" where
  "hours_per_calendar_day df =
     (case get_column df ''trip_minutes'' of
        Inl e \<Rightarrow> Inl e
      | Inr minutes \<Rightarrow>
         (case groupby_sum (map (map_option date_of) (index df)) minutes of
            Inl e \<Rightarrow> Inl e
          | Inr totals \<Rightarrow> Inr (map (\<lambda>(d, s). (d * ns_per_day, s / 60)) totals)))"

text \<open>
  The words of the specification for the weekday codes: Monday is \<open>L\<close>, Tuesday \<open>M\<close>,
  Wednesday \<open>X\<close>, Thursday \<open>J\<close>, Friday \<open>V\<close>, Saturday \<open>S\<close> and Sunday \<open>D\<close>. The
  weekday of a timestamp is that of its calendar day, counted from 1970-01-01, a
  Thursday.
\<close>

definition weekday_letter :: "int \<Rightarrow> string" where
  "weekday_letter t = [''L'', ''M'', ''X'', ''J'', ''V'', ''S'', ''D''] ! nat ((date_of t + 3) mod 7)"

definition dia_column :: "int option list \<Rightarrow> cell list" where
  "dia_column idx = map (\<lambda>i. case i of None \<Rightarrow> NaN | Some t \<Rightarrow> StrV (weekday_letter t)) idx"

section \<open>Example tables\<close>

text \<open>
  \<^verbatim>\<open>str\<close> on the floats of the examples. They are whole numbers below \<open>10^16\<close>, for
  which Python prints the integer followed by \<open>.0\<close>.
\<close>

definition whole_float_str :: "cell \<Rightarrow> string" where
  "whole_float_str c = (case c of FloatV q \<Rightarrow> str_int \<lfloor>q\<rfloor> @ ''.0'' | _ \<Rightarrow> [])"

text \<open>
  A month of seven raw rows, the fourth of them empty. 2022-11-01 is day 19297 since
  1970-01-01 and a Tuesday. The stations 1 and 3 have two trips each, the stations 2
  and 4 one; the bike of the last trip was not locked at a station.
\<close>

definition nov1 :: int where
  "nov1 = 19297 * 86400000000000"

definition nov2 :: int where
  "nov2 = 19298 * 86400000000000"

definition example_raw :: dataframe where
  "example_raw =
     \<lparr>index = [Some nov1, Some nov1, Some nov1, None, Some nov1, Some nov1, Some nov2],
      columns =
       [(''idBike'', [FloatV 7337, FloatV 5098, FloatV 6519, NaN, FloatV 5660, FloatV 1040, FloatV 7337]),
        (''fleet'', [FloatV 1, FloatV 1, FloatV 1, NaN, FloatV 1, FloatV 1, FloatV 1]),
        (''trip_minutes'',
           [FloatV 5, FloatV 10, FloatV 12, NaN, FloatV 7, FloatV 8, FloatV (1 / 2)]),
        (''geolocation_unlock'',
           [StrV ''g2'', StrV ''g1'', StrV ''g1'', NaN, StrV ''g3'', StrV ''g4'', StrV ''g3'']),
        (''address_unlock'',
           [StrV ''Calle Jesus 1'', StrV ''Calle Manuel Silvela'', StrV ''Calle Manuel Silvela'',
            NaN, StrV ''Calle Alcala'', StrV ''Paseo de la Chopera'', StrV ''Calle Alcala'']),
        (''unlock_date'',
           [TimeV (nov1 + 60), TimeV (nov1 + 120), TimeV (nov1 + 180), NaN, TimeV (nov1 + 240),
            TimeV (nov1 + 300), TimeV (nov2 + 60)]),
        (''locktype'',
           [StrV ''STATION'', StrV ''STATION'', StrV ''STATION'', NaN, StrV ''STATION'',
            StrV ''STATION'', StrV ''FREE'']),
        (''unlocktype'',
           [StrV ''STATION'', StrV ''STATION'', StrV ''STATION'', NaN, StrV ''STATION'',
            StrV ''STATION'', StrV ''STATION'']),
        (''geolocation_lock'',
           [StrV ''g1'', StrV ''g2'', StrV ''g3'', NaN, StrV ''g4'', StrV ''g1'', NaN]),
        (''address_lock'',
           [StrV ''Calle Manuel Silvela'', StrV ''Calle Jesus 1'', StrV ''Calle Alcala'', NaN,
            StrV ''Paseo de la Chopera'', StrV ''Calle Manuel Silvela'', NaN]),
        (''lock_date'',
           [TimeV (nov1 + 360), TimeV (nov1 + 720), TimeV (nov1 + 900), NaN, TimeV (nov1 + 660),
            TimeV (nov1 + 780), TimeV (nov2 + 90)]),
        (''station_unlock'',
           [FloatV 2, FloatV 1, FloatV 1, NaN, FloatV 3, FloatV 4, FloatV 3]),
        (''unlock_station_name'',
           [StrV ''2 - Jesus'', StrV ''1 - Silvela'', StrV ''1 - Silvela'', NaN,
            StrV ''3 - Alcala'', StrV ''4 - Chopera'', StrV ''3 - Alcala'']),
        (''station_lock'',
           [FloatV 1, FloatV 2, FloatV 3, NaN, FloatV 4, FloatV 1, NaN]),
        (''lock_station_name'',
           [StrV ''1 - Silvela'', StrV ''2 - Jesus'', StrV ''3 - Alcala'', NaN,
            StrV ''4 - Chopera'', StrV ''1 - Silvela'', NaN])]\<rparr>"

definition example_month :: bicimad where
  "example_month = BiciMad whole_float_str 11 22 example_raw"

text \<open>
  The same month with other codes for the unlock stations: the column holds strings,
  two of them decimal numbers.
\<close>

definition decimal_codes_raw :: dataframe where
  "decimal_codes_raw =
     set_column example_raw ''station_unlock''
       [StrV ''A12'', StrV ''10.05'', StrV ''B.07'', NaN, StrV ''..00'', StrV ''A12'', StrV ''3'']"

text \<open>
  The words of the specification for the most popular stations: a station is most
  popular when no station has more rows than it has, and the popular addresses are
  the unlock addresses of the rows of the most popular stations.
\<close>

definition is_most_popular :: "cell list \<Rightarrow> cell \<Rightarrow> bool" where
  "is_most_popular stations s \<longleftrightarrow>
     s \<in> set stations \<and> (\<forall>s' \<in> set stations. count_list stations s' \<le> count_list stations s)"

definition popular_addresses :: "cell list \<Rightarrow> cell list \<Rightarrow> cell set" where
  "popular_addresses stations addresses =
     {a. \<exists>s. (s, a) \<in> set (zip stations addresses) \<and> is_most_popular stations s}"

text \<open>
  The same month with the time of day in the timestamps of the index: the five trips
  of 2022-11-01 start at 8, 9, 9, 18 and 18 o'clock.
\<close>

definition hour :: int where
  "hour = 3600000000000"

definition timed_raw :: dataframe where
  "timed_raw =
     example_raw\<lparr>index :=
       [Some (nov1 + 8 * hour), Some (nov1 + 9 * hour), Some (nov1 + 9 * hour), None,
        Some (nov1 + 18 * hour), Some (nov1 + 18 * hour), Some (nov2 + 8 * hour)]\<rparr>"

text \<open>The same month with no timestamp in the first row.\<close>

definition undated_raw :: dataframe where
  "undated_raw =
     example_raw\<lparr>index :=
       [None, Some nov1, Some nov1, None, Some nov1, Some nov1, Some nov2]\<rparr>"

section \<open>Basic facts about the string functions\<close>

lemma nat_digits_small: "n < 10 \<Longrightarrow> nat_digits n = [digit_char n]"
  by (subst nat_digits.simps) simp

lemma nat_digits_two:
  assumes "10 \<le> n" and "n < 100"
  shows "nat_digits n = [digit_char (n div 10), digit_char (n mod 10)]"
proof -
  from assms have "n div 10 < 10" by simp
  then have "nat_digits (n div 10) = [digit_char (n div 10)]"
    by (rule nat_digits_small)
  with assms show ?thesis
    by (subst nat_digits.simps) simp
qed

lemma str_contains_iff: "str_contains needle hay \<longleftrightarrow> sublist needle hay"
proof (induction hay)
  case Nil
  then show ?case by auto
next
  case (Cons c cs)
  have "prefix needle (c # cs) \<longleftrightarrow> take (length needle) (c # cs) = needle"
    by (metis append_eq_conv_conj prefix_def take_is_prefix)
  with Cons show ?case
    by (auto simp: sublist_Cons_right)
qed

lemma digit_char_simps:
  "digit_char 0 = CHR ''0''" "digit_char 1 = CHR ''1''" "digit_char 2 = CHR ''2''"
  "digit_char 3 = CHR ''3''" "digit_char 4 = CHR ''4''" "digit_char 5 = CHR ''5''"
  "digit_char 6 = CHR ''6''" "digit_char 7 = CHR ''7''" "digit_char 8 = CHR ''8''"
  "digit_char 9 = CHR ''9''" "digit_char (Suc 0) = CHR ''1''"
  by code_simp+

lemma format_02_two:
  assumes "0 \<le> i" and "i \<le> 99"
  shows "format_02 i = two_digits i"
proof (cases "i < 10")
  case True
  with assms have "nat \<bar>i\<bar> < 10" "nat i div 10 = 0" "nat i mod 10 = nat i" "nat \<bar>i\<bar> = nat i"
    by auto
  with assms show ?thesis
    by (simp add: format_02_def two_digits_def nat_digits_small digit_char_simps)
next
  case False
  with assms have "10 \<le> nat \<bar>i\<bar>" "nat \<bar>i\<bar> < 100" "nat \<bar>i\<bar> = nat i"
    by auto
  with assms show ?thesis
    by (simp add: format_02_def two_digits_def nat_digits_two)
qed

lemma str_int_two:
  assumes "10 \<le> i" and "i \<le> 99"
  shows "str_int i = two_digits i"
proof -
  from assms have "10 \<le> nat i" "nat i < 100" by auto
  with assms show ?thesis
    by (simp add: str_int_def two_digits_def nat_digits_two)
qed

section \<open>File names and URL resolution\<close>

lemma month_lookup:
  assumes "1 \<le> month" and "month \<le> 12"
  shows "map_of month_name_mapping month = Some (english_month_names ! nat (month - 1))"
proof -
  from assms
  have "month = 1 \<or> month = 2 \<or> month = 3 \<or> month = 4 \<or> month = 5 \<or> month = 6
      \<or> month = 7 \<or> month = 8 \<or> month = 9 \<or> month = 10 \<or> month = 11 \<or> month = 12"
    by arith
  then show ?thesis
    by (elim disjE) (simp_all add: month_name_mapping_def english_month_names_def)
qed

text \<open>
  C8. For a month from 1 to 12 and a year of two digits, \<open>get_name_csv\<close> returns
  \<open>trips_\<close>, the year, \<open>_\<close>, the month written with two digits, \<open>_\<close>, the English name of
  the month taken from the table of twelve names, and \<open>.csv\<close>; the two examples of the
  specification evaluate to the file names it gives.
\<close>

theorem get_name_csv_format:
  "(1 \<le> month \<and> month \<le> 12 \<and> 10 \<le> year \<and> year \<le> 99 \<longrightarrow>
      get_name_csv month year =
        Inr (''trips_'' @ two_digits year @ ''_'' @ two_digits month @ ''_'' @
             english_month_names ! nat (month - 1) @ ''.csv''))
   \<and> get_name_csv 9 25 = Inr ''trips_25_09_September.csv''
   \<and> get_name_csv 1 21 = Inr ''trips_21_01_January.csv''"
proof (intro conjI impI)
  assume "1 \<le> month \<and> month \<le> 12 \<and> 10 \<le> year \<and> year \<le> 99"
  then show "get_name_csv month year =
        Inr (''trips_'' @ two_digits year @ ''_'' @ two_digits month @ ''_'' @
             english_month_names ! nat (month - 1) @ ''.csv'')"
    by (simp add: get_name_csv_def month_lookup str_int_two format_02_two)
next
  show "get_name_csv 9 25 = Inr ''trips_25_09_September.csv''"
    by code_simp
next
  show "get_name_csv 1 21 = Inr ''trips_21_01_January.csv''"
    by code_simp
qed

theorem get_name_csv_format_witness:
  "(1::int) \<le> 11 \<and> (11::int) \<le> 12 \<and> (10::int) \<le> 22 \<and> (22::int) \<le> 99
   \<and> get_name_csv 11 22 = Inr ''trips_22_11_November.csv''"
  using get_name_csv_format [of 11 22]
  by (simp add: two_digits_def english_month_names_def digit_char_simps)

lemma first_url_containing_find:
  "first_url_containing s urls = List.find (\<lambda>url. sublist s url) urls"
  by (induction urls) (simp_all add: str_contains_iff)

lemma search_str_two:
  assumes "1 \<le> month" and "month \<le> 12" and "year \<in> {21, 22, 23}"
  shows "search_str month year = two_digits year @ ''_'' @ two_digits month"
proof -
  from assms have "10 \<le> year" "year \<le> 99" "0 \<le> month" "month \<le> 99"
    by auto
  then show ?thesis
    by (simp add: search_str_def str_int_two format_02_two)
qed

lemma get_url_invalid:
  assumes "\<not> (1 \<le> month \<and> month \<le> 12) \<or> year \<notin> {21, 22, 23}"
  shows "\<exists>msg. \<forall>enlaces. get_url enlaces month year = Inl (ValueError msg)"
proof -
  from assms
  have bad: "(if \<not> (1 \<le> month \<and> month \<le> 12) then a
              else if year \<notin> set [21, 22, 23] then b else c)
      = (if \<not> (1 \<le> month \<and> month \<le> 12) then a else b)" for a b c :: "error + string"
    by auto
  have "\<exists>msg. get_url [] month year = Inl (ValueError msg)"
    unfolding get_url_def bad
    by (simp only: if_distrib [of "\<lambda>r. \<exists>msg. r = Inl (ValueError msg)"]) simp
  moreover have "get_url enlaces month year = get_url [] month year" for enlaces
    unfolding get_url_def bad ..
  ultimately show ?thesis
    by metis
qed

text \<open>
  C4. When the month is outside 1..12 or the year is none of 21, 22, 23, \<open>get_url\<close>
  raises a value error that is the same for every stored set of links. Otherwise it
  returns the first stored URL that contains the year, \<open>_\<close> and the month in two
  digits, and when no stored URL contains it, it raises the value error whose message
  contains the decimal month and the decimal year.
\<close>

theorem get_url_spec:
  "(\<not> (1 \<le> month \<and> month \<le> 12) \<or> year \<notin> {21, 22, 23} \<longrightarrow>
      (\<exists>msg. \<forall>enlaces. get_url enlaces month year = Inl (ValueError msg)))
   \<and> (1 \<le> month \<and> month \<le> 12 \<and> year \<in> {21, 22, 23} \<longrightarrow>
      get_url enlaces_validos month year =
        (case List.find (\<lambda>url. sublist (two_digits year @ ''_'' @ two_digits month) url)
                enlaces_validos of
           Some url \<Rightarrow> Inr url
         | None \<Rightarrow> Inl (ValueError (no_link_message month year)))
      \<and> sublist (str_int month) (no_link_message month year)
      \<and> sublist (str_int year) (no_link_message month year))"
proof (intro conjI impI)
  assume "\<not> (1 \<le> month \<and> month \<le> 12) \<or> year \<notin> {21, 22, 23}"
  then show "\<exists>msg. \<forall>enlaces. get_url enlaces month year = Inl (ValueError msg)"
    by (rule get_url_invalid)
next
  assume h: "1 \<le> month \<and> month \<le> 12 \<and> year \<in> {21, 22, 23}"
  then have "search_str month year = two_digits year @ ''_'' @ two_digits month"
    by (intro search_str_two) auto
  moreover from h
  have "(if \<not> (1 \<le> month \<and> month \<le> 12) then a
         else if year \<notin> set [21, 22, 23] then b else c) = c" for a b c :: "error + string"
    by auto
  ultimately show "get_url enlaces_validos month year =
        (case List.find (\<lambda>url. sublist (two_digits year @ ''_'' @ two_digits month) url)
                enlaces_validos of
           Some url \<Rightarrow> Inr url
         | None \<Rightarrow> Inl (ValueError (no_link_message month year)))"
    unfolding get_url_def by (simp only: first_url_containing_find)
next
  have "no_link_message month year =
      ''No existe un enlace valido para el mes '' @ str_int month @
        ('' del a'' @ [CHR 0xF1] @ ''o '' @ str_int year)"
    by (simp add: no_link_message_def)
  then show "sublist (str_int month) (no_link_message month year)"
    by (simp only: sublist_appendI)
next
  have "no_link_message month year =
      (''No existe un enlace valido para el mes '' @ str_int month @
        '' del a'' @ [CHR 0xF1] @ ''o '') @ str_int year"
    by (simp add: no_link_message_def)
  then show "sublist (str_int year) (no_link_message month year)"
    by (simp only: sublist_append_leftI)
qed

theorem get_url_spec_witness:
  "\<not> (1 \<le> (0::int) \<and> (0::int) \<le> 12)
   \<and> (\<exists>msg. \<forall>enlaces. get_url enlaces 0 23 = Inl (ValueError msg))
   \<and> 1 \<le> (3::int) \<and> (3::int) \<le> 12 \<and> (22::int) \<in> {21, 22, 23}
   \<and> get_url [''https://opendata.emtmadrid.es/51ba4be6/trips_21_10_October-csv.aspx'',
               ''https://opendata.emtmadrid.es/getattachment/trips_22_03_march-csv.aspx'',
               ''https://opendata.emtmadrid.es/getattachment/x/trips_22_03_March-csv.aspx''] 3 22
       = Inr ''https://opendata.emtmadrid.es/getattachment/trips_22_03_march-csv.aspx''"
proof -
  have a: "\<exists>msg. \<forall>enlaces. get_url enlaces 0 23 = Inl (ValueError msg)"
    using get_url_spec [of 0 23] by simp
  have f: "List.find (\<lambda>url. sublist (two_digits 22 @ ''_'' @ two_digits 3) url)
         [''https://opendata.emtmadrid.es/51ba4be6/trips_21_10_October-csv.aspx'',
          ''https://opendata.emtmadrid.es/getattachment/trips_22_03_march-csv.aspx'',
          ''https://opendata.emtmadrid.es/getattachment/x/trips_22_03_March-csv.aspx'']
       = Some ''https://opendata.emtmadrid.es/getattachment/trips_22_03_march-csv.aspx''"
    unfolding str_contains_iff [symmetric] by code_simp
  have b: "get_url [''https://opendata.emtmadrid.es/51ba4be6/trips_21_10_October-csv.aspx'',
               ''https://opendata.emtmadrid.es/getattachment/trips_22_03_march-csv.aspx'',
               ''https://opendata.emtmadrid.es/getattachment/x/trips_22_03_March-csv.aspx''] 3 22
       = Inr ''https://opendata.emtmadrid.es/getattachment/trips_22_03_march-csv.aspx''"
    using get_url_spec [of 3 22 "[''https://opendata.emtmadrid.es/51ba4be6/trips_21_10_October-csv.aspx'',
               ''https://opendata.emtmadrid.es/getattachment/trips_22_03_march-csv.aspx'',
               ''https://opendata.emtmadrid.es/getattachment/x/trips_22_03_March-csv.aspx'']"]
    unfolding f by simp
  from a b show ?thesis by simp
qed

section \<open>Link extraction\<close>

lemma length_latin: "length (latin l) = length l"
  by (simp add: latin_def)

lemma lit_Some: "lit l s = Some r \<longleftrightarrow> s = latin l @ r"
proof
  assume "lit l s = Some r"
  then have "take (length l) s = latin l" and "r = drop (length l) s"
    by (auto simp: lit_def split: if_splits)
  then show "s = latin l @ r"
    by (metis append_take_drop_id)
next
  assume "s = latin l @ r"
  then show "lit l s = Some r"
    by (simp add: lit_def length_latin [symmetric])
qed

lemma digit_Some: "digit wd s = Some r \<longleftrightarrow> (\<exists>d. s = d # r \<and> is_digit wd d)"
  by (cases s) auto

lemma letters1_Some:
  "letters1 s = Some r \<Longrightarrow> \<exists>ls. s = ls @ r \<and> ls \<noteq> [] \<and> list_all is_letter ls"
  unfolding letters1_def
  by (rule exI [of _ "takeWhile is_letter s"])
     (auto split: if_splits simp: list_all_iff dest: set_takeWhileD)

lemma letters1_run:
  assumes "ls \<noteq> []" and "list_all is_letter ls"
  shows "letters1 (ls @ Latin CHR ''-'' # r) = Some (Latin CHR ''-'' # r)"
proof -
  have "\<not> is_letter (Latin CHR ''-'')"
    by (simp add: is_letter_def)
  with assms have "takeWhile is_letter (ls @ Latin CHR ''-'' # r) = ls"
    and "dropWhile is_letter (ls @ Latin CHR ''-'' # r) = Latin CHR ''-'' # r"
    by (simp_all add: list_all_iff takeWhile_append2 dropWhile_append2)
  with assms show ?thesis
    by (simp add: letters1_def)
qed

lemma match_name_sound:
  assumes "match_name wd s = Some r"
  shows "\<exists>w. s = w @ r \<and> name_pattern wd w"
proof -
  from assms obtain s1 s2 s3 s4 s5 s6 s7 s8 where
    "lit ''trips_'' s = Some s1" "digit wd s1 = Some s2" "digit wd s2 = Some s3"
    "lit ''_'' s3 = Some s4" "digit wd s4 = Some s5" "digit wd s5 = Some s6"
    "lit ''_'' s6 = Some s7" "letters1 s7 = Some s8" "lit ''-csv.aspx'' s8 = Some r"
    unfolding match_name_def by (auto simp: bind_eq_Some_conv)
  then obtain d1 d2 d3 d4 ls where
    "s = latin ''trips_'' @ s1" "s1 = d1 # s2" "is_digit wd d1" "s2 = d2 # s3" "is_digit wd d2"
    "s3 = latin ''_'' @ s4" "s4 = d3 # s5" "is_digit wd d3" "s5 = d4 # s6" "is_digit wd d4"
    "s6 = latin ''_'' @ s7" "s7 = ls @ s8" "ls \<noteq> []" "list_all is_letter ls"
    "s8 = latin ''-csv.aspx'' @ r"
    unfolding lit_Some digit_Some by (metis letters1_Some)
  then have "s = (latin ''trips_'' @ [d1, d2] @ latin ''_'' @ [d3, d4] @ latin ''_'' @ ls
        @ latin ''-csv.aspx'') @ r"
    and "name_pattern wd (latin ''trips_'' @ [d1, d2] @ latin ''_'' @ [d3, d4] @ latin ''_'' @ ls
        @ latin ''-csv.aspx'')"
    unfolding name_pattern_def by auto
  then show ?thesis by blast
qed

lemma match_name_complete:
  assumes "name_pattern wd w"
  shows "match_name wd (w @ r) = Some r"
proof -
  from assms obtain d1 d2 d3 d4 ls where
    w: "w = latin ''trips_'' @ [d1, d2] @ latin ''_'' @ [d3, d4] @ latin ''_'' @ ls
          @ latin ''-csv.aspx''"
    and d: "is_digit wd d1" "is_digit wd d2" "is_digit wd d3" "is_digit wd d4"
    and l: "ls \<noteq> []" "list_all is_letter ls"
    unfolding name_pattern_def by blast
  have "letters1 (ls @ Latin CHR ''-'' # latin ''csv.aspx'' @ r)
      = Some (Latin CHR ''-'' # latin ''csv.aspx'' @ r)"
    using l by (rule letters1_run)
  with d show ?thesis
    unfolding w match_name_def by (simp add: lit_def latin_def)
qed

lemma name_pattern_nonempty: "name_pattern wd w \<Longrightarrow> w \<noteq> []"
  unfolding name_pattern_def by (auto simp: latin_def)

lemma match_lazy_sound:
  "match_lazy wd s = Some r \<Longrightarrow>
     \<exists>a w. s = a @ w @ r \<and> Latin (CHR 0x0A) \<notin> set a \<and> name_pattern wd w"
proof (induction s)
  case Nil
  then show ?case using match_name_sound [of wd "[]" r] by auto
next
  case (Cons c cs)
  show ?case
  proof (cases "match_name wd (c # cs)")
    case (Some r')
    with Cons.prems have "match_name wd (c # cs) = Some r" by simp
    then obtain w where "c # cs = w @ r" "name_pattern wd w"
      using match_name_sound by blast
    then have "c # cs = [] @ w @ r \<and> Latin (CHR 0x0A) \<notin> set [] \<and> name_pattern wd w"
      by simp
    then show ?thesis by blast
  next
    case None
    with Cons.prems have c: "c \<noteq> Latin (CHR 0x0A)" and "match_lazy wd cs = Some r"
      by (auto split: if_splits)
    with Cons.IH obtain a w where "cs = a @ w @ r" "Latin (CHR 0x0A) \<notin> set a"
      "name_pattern wd w"
      by blast
    with c have "c # cs = (c # a) @ w @ r \<and> Latin (CHR 0x0A) \<notin> set (c # a)
        \<and> name_pattern wd w"
      by simp
    then show ?thesis by blast
  qed
qed

lemma match_lazy_complete:
  "Latin (CHR 0x0A) \<notin> set a \<Longrightarrow> name_pattern wd w \<Longrightarrow> match_lazy wd (a @ w @ r) \<noteq> None"
proof (induction a)
  case Nil
  then obtain c cs where "w @ r = c # cs"
    using name_pattern_nonempty [of wd w] by (cases w) auto
  moreover have "match_name wd (w @ r) = Some r"
    using Nil by (simp add: match_name_complete)
  ultimately show ?case by simp
next
  case (Cons x a)
  then show ?case by (cases "match_name wd (x # a @ w @ r)") auto
qed

text \<open>A name ends with \<open>-csv.aspx\<close> and has no other hyphen.\<close>

lemma name_pattern_hyphen:
  assumes "name_pattern wd n"
  shows "\<exists>pre. n = pre @ Latin CHR ''-'' # latin ''csv.aspx'' \<and> Latin CHR ''-'' \<notin> set pre"
proof -
  from assms obtain d1 d2 d3 d4 ls where
    n: "n = latin ''trips_'' @ [d1, d2] @ latin ''_'' @ [d3, d4] @ latin ''_'' @ ls
          @ latin ''-csv.aspx''"
    and d: "is_digit wd d1" "is_digit wd d2" "is_digit wd d3" "is_digit wd d4"
    and l: "list_all is_letter ls"
    unfolding name_pattern_def by blast
  have nd: "c \<noteq> Latin CHR ''-''" if "is_digit wd c" for c
    using that by (auto simp: is_digit_def)
  have nl: "c \<noteq> Latin CHR ''-''" if "is_letter c" for c
    using that by (auto simp: is_letter_def)
  let ?pre = "latin ''trips_'' @ [d1, d2] @ latin ''_'' @ [d3, d4] @ latin ''_'' @ ls"
  have "Latin CHR ''-'' \<notin> set ls"
    using l nl by (auto simp: list_all_iff)
  with d nd have "Latin CHR ''-'' \<notin> set ?pre"
    by (auto simp: latin_def)
  moreover have "n = ?pre @ Latin CHR ''-'' # latin ''csv.aspx''"
    unfolding n by (simp add: latin_def)
  ultimately show ?thesis by blast
qed

lemma first_occurrence:
  "xs @ c # ys = us @ c # vs \<Longrightarrow> c \<notin> set xs \<Longrightarrow> length xs \<le> length us"
proof (induction xs arbitrary: us)
  case Nil
  then show ?case by simp
next
  case (Cons x xs)
  from Cons.prems(2) have x: "x \<noteq> c" and c: "c \<notin> set xs"
    by auto
  show ?case
  proof (cases us)
    case Nil
    with Cons.prems(1) x show ?thesis by simp
  next
    case (Cons u us')
    with Cons.prems(1) have "xs @ c # ys = us' @ c # vs"
      by simp
    then have "length xs \<le> length us'"
      using c by (rule Cons.IH)
    with Cons show ?thesis by simp
  qed
qed

text \<open>A name that starts further right does not end further left.\<close>

lemma name_ends_first:
  assumes "name_pattern wd n" and "name_pattern wd n'" and "n @ r = a' @ n' @ r'"
  shows "length r' \<le> length r"
proof -
  from assms(1) obtain pre where n: "n = pre @ Latin CHR ''-'' # latin ''csv.aspx''"
    and h: "Latin CHR ''-'' \<notin> set pre"
    using name_pattern_hyphen by blast
  from assms(2) obtain pre' where n': "n' = pre' @ Latin CHR ''-'' # latin ''csv.aspx''"
    using name_pattern_hyphen by blast
  have eq: "pre @ Latin CHR ''-'' # (latin ''csv.aspx'' @ r)
      = (a' @ pre') @ Latin CHR ''-'' # (latin ''csv.aspx'' @ r')"
    using assms(3) unfolding n n' by simp
  then have "length pre \<le> length (a' @ pre')"
    using h by (rule first_occurrence)
  moreover from eq
  have "length (pre @ Latin CHR ''-'' # (latin ''csv.aspx'' @ r))
      = length ((a' @ pre') @ Latin CHR ''-'' # (latin ''csv.aspx'' @ r'))"
    by (rule arg_cong)
  then have "length pre + length r = length (a' @ pre') + length r'"
    by simp
  ultimately show ?thesis
    by linarith
qed

lemma match_lazy_shortest:
  assumes "match_lazy wd s = Some r"
    and "s = a' @ n' @ r'" and "name_pattern wd n'"
  shows "length r' \<le> length r"
  using assms
proof (induction s arbitrary: a')
  case Nil
  then show ?case by simp
next
  case (Cons c cs)
  show ?case
  proof (cases "match_name wd (c # cs)")
    case (Some r0)
    with Cons.prems(1) have "r0 = r" by simp
    with Some obtain n where "c # cs = n @ r" "name_pattern wd n"
      using match_name_sound by blast
    with Cons.prems(2,3) show ?thesis
      using name_ends_first [of wd n n' r a' r'] by simp
  next
    case None
    with Cons.prems(1) have m: "match_lazy wd cs = Some r"
      by (auto split: if_splits)
    have "a' \<noteq> []"
    proof
      assume "a' = []"
      with Cons.prems(2,3) have "match_name wd (c # cs) = Some r'"
        by (simp add: match_name_complete)
      with None show False by simp
    qed
    then obtain a'' where "a' = c # a''" and "cs = a'' @ n' @ r'"
      using Cons.prems(2) by (cases a') auto
    with m Cons.prems(3) show ?thesis
      using Cons.IH [of a''] by simp
  qed
qed

lemma match_at_sound:
  assumes "match_at wd s = Some w"
  shows "prefix w s \<and> regex_pattern wd w \<and> w \<noteq> []"
proof -
  from assms obtain s1 rest where s1: "lit ''getattachment/'' s = Some s1"
    and rest: "match_lazy wd s1 = Some rest" and w: "w = take (length s - length rest) s"
    unfolding match_at_def by (auto split: option.splits simp: bind_eq_Some_conv)
  from s1 have s: "s = latin ''getattachment/'' @ s1"
    by (simp add: lit_Some)
  from rest obtain a n where a: "s1 = a @ n @ rest" "Latin (CHR 0x0A) \<notin> set a"
    "name_pattern wd n"
    using match_lazy_sound by blast
  have "s = (latin ''getattachment/'' @ a @ n) @ rest"
    using s a by simp
  then have "w = latin ''getattachment/'' @ a @ n"
    unfolding w by (metis add_diff_cancel_right' append_eq_conv_conj length_append)
  with a s show ?thesis
    unfolding regex_pattern_def by (auto simp: prefix_def latin_def)
qed

lemma match_at_complete:
  assumes "regex_pattern wd w"
  shows "match_at wd (w @ r) \<noteq> None"
proof -
  from assms obtain a n where w: "w = latin ''getattachment/'' @ a @ n"
    and a: "Latin (CHR 0x0A) \<notin> set a" "name_pattern wd n"
    unfolding regex_pattern_def by blast
  have "lit ''getattachment/'' (w @ r) = Some (a @ n @ r)"
    unfolding w lit_Some by simp
  moreover have "match_lazy wd (a @ n @ r) \<noteq> None"
    using a by (rule match_lazy_complete)
  ultimately show ?thesis
    unfolding match_at_def by (auto split: option.splits)
qed

lemma match_at_shortest:
  assumes "match_at wd s = Some w" and "s = w' @ r'" and "regex_pattern wd w'"
  shows "length w \<le> length w'"
proof -
  from assms(1) obtain s1 rest where s1: "lit ''getattachment/'' s = Some s1"
    and rest: "match_lazy wd s1 = Some rest" and w: "w = take (length s - length rest) s"
    unfolding match_at_def by (auto split: option.splits simp: bind_eq_Some_conv)
  from s1 have s: "s = latin ''getattachment/'' @ s1"
    by (simp add: lit_Some)
  from assms(3) obtain a' n' where w': "w' = latin ''getattachment/'' @ a' @ n'"
    and n': "name_pattern wd n'"
    unfolding regex_pattern_def by blast
  from s assms(2) w' have "s1 = a' @ n' @ r'"
    by simp
  with rest have "length r' \<le> length rest"
    using n' by (rule match_lazy_shortest)
  moreover have "length w = length s - length rest"
    unfolding w by simp
  moreover have "length w' = length s - length r'"
    using assms(2) by simp
  ultimately show ?thesis
    by linarith
qed

lemma findall_sound:
  "link \<in> set (findall wd s) \<Longrightarrow> sublist link s \<and> regex_pattern wd link"
proof (induction wd s rule: findall.induct)
  case (1 wd)
  then show ?case by simp
next
  case (2 wd c cs)
  show ?case
  proof (cases "match_at wd (c # cs)")
    case None
    with 2 have "sublist link cs \<and> regex_pattern wd link" by simp
    then show ?thesis by (auto simp: sublist_Cons_right)
  next
    case (Some w)
    then have w: "prefix w (c # cs)" "regex_pattern wd w"
      using match_at_sound by blast+
    from 2 Some have "link = w \<or> link \<in> set (findall wd (drop (length w - 1) cs))"
      by simp
    then show ?thesis
    proof
      assume "link = w"
      with w show ?thesis by (auto intro: prefix_imp_sublist)
    next
      assume "link \<in> set (findall wd (drop (length w - 1) cs))"
      with 2 Some have "sublist link (drop (length w - 1) cs)" and r: "regex_pattern wd link"
        by auto
      then have "sublist link cs"
        by (meson sublist_drop sublist_order.order.trans)
      with r show ?thesis by (auto simp: sublist_Cons_right)
    qed
  qed
qed

lemma findall_Nil_suffix:
  "findall wd s = [] \<Longrightarrow> suffix t s \<Longrightarrow> match_at wd t = None"
proof (induction s)
  case Nil
  then show ?case by (simp add: match_at_def lit_def latin_def)
next
  case (Cons c cs)
  from Cons.prems(1) have m: "match_at wd (c # cs) = None" and f: "findall wd cs = []"
    by (auto split: option.splits)
  from Cons.prems(2) have "t = c # cs \<or> suffix t cs"
    by (auto simp: suffix_Cons)
  with m f Cons.IH show ?case by auto
qed

lemma findall_Nil_iff:
  "findall wd s = [] \<longleftrightarrow> (\<forall>w. sublist w s \<longrightarrow> \<not> regex_pattern wd w)"
proof
  assume e: "findall wd s = []"
  show "\<forall>w. sublist w s \<longrightarrow> \<not> regex_pattern wd w"
  proof (intro allI impI notI)
    fix w assume "sublist w s" and p: "regex_pattern wd w"
    then obtain ps ss where "s = ps @ w @ ss" by (auto simp: sublist_def)
    then have "suffix (w @ ss) s" by (simp add: suffix_def)
    with e have "match_at wd (w @ ss) = None" by (rule findall_Nil_suffix)
    with p show False using match_at_complete by blast
  qed
next
  assume n: "\<forall>w. sublist w s \<longrightarrow> \<not> regex_pattern wd w"
  show "findall wd s = []"
  proof (rule ccontr)
    assume "findall wd s \<noteq> []"
    then obtain l where "l \<in> set (findall wd s)" by (cases "findall wd s") auto
    then have "sublist l s \<and> regex_pattern wd l" by (rule findall_sound)
    with n show False by blast
  qed
qed

text \<open>The first element of \<open>findall\<close> is a first match, and the others are found behind it.\<close>

lemma first_match_Cons:
  assumes "match_at wd (c # cs) = None" and "first_match wd cs before w behind"
  shows "first_match wd (c # cs) (c # before) w behind"
  unfolding first_match_def
proof (intro conjI allI impI)
  from assms(2) show "c # cs = (c # before) @ w @ behind"
    by (simp add: first_match_def)
  from assms(2) show "regex_pattern wd w"
    by (simp add: first_match_def)
next
  fix before' w' behind'
  assume d: "c # cs = before' @ w' @ behind' \<and> regex_pattern wd w'"
  have "before' \<noteq> []"
  proof
    assume "before' = []"
    with d have "match_at wd (c # cs) \<noteq> None"
      using match_at_complete [of wd w' behind'] by simp
    with assms(1) show False by simp
  qed
  then obtain b where b: "before' = c # b" and "cs = b @ w' @ behind'"
    using d by (cases before') auto
  with d assms(2)
  have "length before < length b \<or> (length before = length b \<and> length w \<le> length w')"
    unfolding first_match_def by blast
  with b show "length (c # before) < length before'
      \<or> (length (c # before) = length before' \<and> length w \<le> length w')"
    by simp
qed

lemma findall_decompose:
  "findall wd s = w # ws \<Longrightarrow>
     \<exists>before behind. first_match wd s before w behind \<and> ws = findall wd behind"
proof (induction wd s rule: findall.induct)
  case (1 wd)
  then show ?case by simp
next
  case (2 wd c cs)
  show ?case
  proof (cases "match_at wd (c # cs)")
    case None
    with "2.prems" have "findall wd cs = w # ws"
      by simp
    with "2.IH"(1) None obtain before behind
      where "first_match wd cs before w behind" and ws: "ws = findall wd behind"
      by blast
    with None have "first_match wd (c # cs) (c # before) w behind"
      by (intro first_match_Cons)
    with ws show ?thesis by blast
  next
    case (Some w0)
    with "2.prems" have w0: "w0 = w" and ws: "ws = findall wd (drop (length w - 1) cs)"
      by auto
    from Some w0 have p: "prefix w (c # cs)" and r: "regex_pattern wd w" and ne: "w \<noteq> []"
      using match_at_sound by blast+
    from p ne have eq: "c # cs = w @ drop (length w - 1) cs"
      by (cases w) (auto simp: prefix_def)
    have "first_match wd (c # cs) [] w (drop (length w - 1) cs)"
      unfolding first_match_def
    proof (intro conjI allI impI)
      show "c # cs = [] @ w @ drop (length w - 1) cs"
        using eq by simp
      show "regex_pattern wd w"
        by (rule r)
    next
      fix before' w' behind'
      assume d: "c # cs = before' @ w' @ behind' \<and> regex_pattern wd w'"
      show "length [] < length before'
          \<or> (length [] = length before' \<and> length w \<le> length w')"
      proof (cases before')
        case Nil
        with d have "c # cs = w' @ behind'" and "regex_pattern wd w'"
          by simp_all
        with Some w0 have "length w \<le> length w'"
          using match_at_shortest [of wd "c # cs" w w' behind'] by simp
        with Nil show ?thesis by simp
      next
        case (Cons b bs)
        then show ?thesis by simp
      qed
    qed
    with ws show ?thesis by blast
  qed
qed

lemma first_match_findall:
  "first_match wd s before w behind \<Longrightarrow> findall wd s = w # findall wd behind"
proof (induction before arbitrary: s)
  case Nil
  note fm = Nil [unfolded first_match_def]
  from fm have s: "s = w @ behind" and r: "regex_pattern wd w"
    by simp_all
  note all = fm [THEN conjunct2, THEN conjunct2, rule_format]
  have least: "length w \<le> length w'"
    if "s = w' @ behind'" and "regex_pattern wd w'" for w' behind'
    using all [of "[]" w' behind'] that by simp
  from r s obtain w0 where m: "match_at wd s = Some w0"
    using match_at_complete [of wd w behind] by auto
  then have p: "prefix w0 s" and r0: "regex_pattern wd w0" and ne: "w0 \<noteq> []"
    using match_at_sound by blast+
  from p obtain behind0 where s0: "s = w0 @ behind0"
    by (auto simp: prefix_def)
  from s0 r0 have "length w \<le> length w0"
    by (rule least)
  moreover have "length w0 \<le> length w"
    using m s r by (rule match_at_shortest)
  ultimately have "w0 = w" and b: "behind0 = behind"
    using s s0 by (auto simp: append_eq_append_conv)
  from ne obtain c ws where w0: "w0 = c # ws"
    by (cases w0) auto
  with s0 b have c: "s = c # (ws @ behind)"
    by simp
  from w0 \<open>w0 = w\<close> have "drop (length w - 1) (ws @ behind) = behind"
    by auto
  with m c \<open>w0 = w\<close> show ?case
    by simp
next
  case (Cons c before)
  note fm = Cons.prems [unfolded first_match_def]
  from fm have s: "s = c # (before @ w @ behind)" and r: "regex_pattern wd w"
    by simp_all
  note all = fm [THEN conjunct2, THEN conjunct2, rule_format]
  have least: "length (c # before) < length before'
        \<or> (length (c # before) = length before' \<and> length w \<le> length w')"
    if "s = before' @ w' @ behind'" and "regex_pattern wd w'" for before' w' behind'
    using all [of before' w' behind'] that by blast
  have none: "match_at wd s = None"
  proof (rule ccontr)
    assume "match_at wd s \<noteq> None"
    then obtain w0 where "match_at wd s = Some w0"
      by auto
    then have "prefix w0 s" and "regex_pattern wd w0"
      using match_at_sound by blast+
    then obtain behind0 where "s = [] @ w0 @ behind0" and "regex_pattern wd w0"
      by (auto simp: prefix_def)
    then have "length (c # before) < length ([] :: pychar list)
        \<or> (length (c # before) = length ([] :: pychar list) \<and> length w \<le> length w0)"
      by (rule least)
    then show False by simp
  qed
  have "first_match wd (before @ w @ behind) before w behind"
    unfolding first_match_def
  proof (intro conjI allI impI)
    show "before @ w @ behind = before @ w @ behind" ..
    show "regex_pattern wd w" by (rule r)
  next
    fix before' w' behind'
    assume d: "before @ w @ behind = before' @ w' @ behind' \<and> regex_pattern wd w'"
    then have "s = (c # before') @ w' @ behind'" and "regex_pattern wd w'"
      using s by simp_all
    then have "length (c # before) < length (c # before')
        \<or> (length (c # before) = length (c # before') \<and> length w \<le> length w')"
      by (rule least)
    then show "length before < length before'
        \<or> (length before = length before' \<and> length w \<le> length w')"
      by simp
  qed
  then have "findall wd (before @ w @ behind) = w # findall wd behind"
    by (rule Cons.IH)
  with none s show ?case
    by simp
qed

lemma scan_matches_findall: "scan_matches wd s (findall wd s)"
proof (induction "findall wd s" arbitrary: s)
  case Nil
  then have "\<forall>w. sublist w s \<longrightarrow> \<not> regex_pattern wd w"
    by (simp add: findall_Nil_iff [symmetric])
  then have "scan_matches wd s []"
    by (rule scan_matches.no_match)
  with Nil show ?case by simp
next
  case (Cons w ws)
  from Cons.hyps(2) [symmetric] obtain before behind
    where f: "first_match wd s before w behind" and ws: "ws = findall wd behind"
    using findall_decompose by blast
  from ws have "scan_matches wd behind (findall wd behind)"
    by (rule Cons.hyps(1))
  with f ws have "scan_matches wd s (w # ws)"
    by (intro scan_matches.match) simp_all
  with Cons.hyps(2) show ?case by simp
qed

lemma scan_matches_unique: "scan_matches wd s ws \<Longrightarrow> ws = findall wd s"
proof (induction rule: scan_matches.induct)
  case (no_match s)
  then have "findall wd s = []"
    by (simp only: findall_Nil_iff)
  then show ?case by simp
next
  case (match s before w behind ws)
  then show ?case by (simp add: first_match_findall)
qed

text \<open>
  C7, as amended. For every HTML text there are the matches of a scan from left to
  right, where the scan takes the match that starts first, the shortest of those that
  start there, and goes on behind it; \<open>get_links\<close> returns the base origin followed by
  each of them, and nothing else. It returns the empty set exactly when no substring
  of the HTML matches the pattern, whose part after \<open>getattachment/\<close> holds no line
  feed. The result is a set for every HTML text: nothing is raised.
\<close>

theorem get_links_scan:
  "(\<exists>ws. scan_matches wide_digit html ws)
   \<and> (\<forall>ws. scan_matches wide_digit html ws \<longrightarrow>
         get_links wide_digit html = {latin EMT @ w | w. w \<in> set ws})
   \<and> (get_links wide_digit html = {} \<longleftrightarrow>
         (\<forall>w. sublist w html \<longrightarrow> \<not> regex_pattern wide_digit w))"
proof (intro conjI allI impI)
  show "\<exists>ws. scan_matches wide_digit html ws"
    using scan_matches_findall by blast
next
  fix ws
  assume "scan_matches wide_digit html ws"
  then have "ws = findall wide_digit html"
    by (rule scan_matches_unique)
  then show "get_links wide_digit html = {latin EMT @ w | w. w \<in> set ws}"
    by (auto simp: get_links_def)
next
  have "get_links wide_digit html = {} \<longleftrightarrow> findall wide_digit html = []"
    by (simp add: get_links_def)
  then show "get_links wide_digit html = {} \<longleftrightarrow>
      (\<forall>w. sublist w html \<longrightarrow> \<not> regex_pattern wide_digit w)"
    by (simp only: findall_Nil_iff)
qed

lemma findall_two_links:
  "findall wd two_links_html =
     [latin ''getattachment/a/trips_22_11_November-csv.aspx'',
      latin ''getattachment/b/trips_22_12_December-csv.aspx'']"
  unfolding two_links_html_def by code_simp

lemma findall_broken_link: "findall wd broken_link_html = []"
  unfolding broken_link_html_def by code_simp

lemma findall_no_links: "findall wd (latin ''<html></html>'') = []"
  by code_simp

lemma findall_arabic_year:
  "findall arabic_indic arabic_year_html =
     [latin ''getattachment/c/trips_'' @ [Wide 1634, Wide 1634] @ latin ''_11_November-csv.aspx'']"
proof -
  have d: "is_digit arabic_indic (Wide 1634)"
    by (simp add: is_digit_def arabic_indic_def)
  have l: "is_digit arabic_indic (Latin a) \<longleftrightarrow> a \<in> set ''0123456789''" for a
    by (simp add: is_digit_def)
  show ?thesis
    unfolding arabic_year_html_def
    by (simp add: latin_def match_at_def lit_def match_name_def letters1_def d l
        is_letter_def)
qed

lemma name_pattern_december: "name_pattern wd (latin ''trips_22_12_December-csv.aspx'')"
  unfolding name_pattern_def
  by (intro exI [of _ "Latin CHR ''2''"] exI [of _ "Latin CHR ''1''"]
        exI [of _ "latin ''December''"])
     (simp add: is_digit_def is_letter_def latin_def)

lemma name_pattern_november: "name_pattern wd (latin ''trips_22_11_November-csv.aspx'')"
  unfolding name_pattern_def
  by (intro exI [of _ "Latin CHR ''2''"] exI [of _ "Latin CHR ''1''"]
        exI [of _ "latin ''November''"])
     (simp add: is_digit_def is_letter_def latin_def)

text \<open>
  C7, as stated, fails twice. On a page with two links on one line, the text from the
  first \<open>getattachment/\<close> to the end of the second link is a substring that matches the
  pattern, and no URL is returned for it. On a link with a line feed after
  \<open>getattachment/\<close>, the whole text matches the pattern of the specification, and
  nothing is returned.
\<close>

theorem get_links_counterexample:
  "spec_pattern arabic_indic
     (latin ''getattachment/a/trips_22_11_November-csv.aspx>11</a> <a href=/getattachment/b/trips_22_12_December-csv.aspx'')
   \<and> sublist
     (latin ''getattachment/a/trips_22_11_November-csv.aspx>11</a> <a href=/getattachment/b/trips_22_12_December-csv.aspx'')
     two_links_html
   \<and> latin EMT @
     latin ''getattachment/a/trips_22_11_November-csv.aspx>11</a> <a href=/getattachment/b/trips_22_12_December-csv.aspx''
       \<notin> get_links arabic_indic two_links_html
   \<and> spec_pattern arabic_indic broken_link_html
   \<and> sublist broken_link_html broken_link_html
   \<and> get_links arabic_indic broken_link_html = {}"
proof (intro conjI)
  have "latin ''getattachment/a/trips_22_11_November-csv.aspx>11</a> <a href=/getattachment/b/trips_22_12_December-csv.aspx''
      = latin ''getattachment/''
          @ latin ''a/trips_22_11_November-csv.aspx>11</a> <a href=/getattachment/b/''
          @ latin ''trips_22_12_December-csv.aspx''"
    by (simp add: latin_def)
  then show "spec_pattern arabic_indic
     (latin ''getattachment/a/trips_22_11_November-csv.aspx>11</a> <a href=/getattachment/b/trips_22_12_December-csv.aspx'')"
    unfolding spec_pattern_def using name_pattern_december by blast
next
  have "two_links_html = latin ''<a href=/'' @
      latin ''getattachment/a/trips_22_11_November-csv.aspx>11</a> <a href=/getattachment/b/trips_22_12_December-csv.aspx''
      @ latin ''>12</a>''"
    by (simp add: two_links_html_def latin_def)
  then show "sublist
     (latin ''getattachment/a/trips_22_11_November-csv.aspx>11</a> <a href=/getattachment/b/trips_22_12_December-csv.aspx'')
     two_links_html"
    by (metis sublist_appendI)
next
  show "latin EMT @
     latin ''getattachment/a/trips_22_11_November-csv.aspx>11</a> <a href=/getattachment/b/trips_22_12_December-csv.aspx''
       \<notin> get_links arabic_indic two_links_html"
    unfolding get_links_def findall_two_links by (simp add: EMT_def latin_def)
next
  have "broken_link_html = latin ''getattachment/'' @ (latin ''x'' @ [Latin (CHR 0x0A)])
      @ latin ''trips_22_11_November-csv.aspx''"
    by (simp add: broken_link_html_def latin_def)
  then show "spec_pattern arabic_indic broken_link_html"
    unfolding spec_pattern_def using name_pattern_november by blast
next
  show "sublist broken_link_html broken_link_html"
    by simp
next
  show "get_links arabic_indic broken_link_html = {}"
    by (simp add: get_links_def findall_broken_link)
qed

theorem get_links_scan_witness:
  "scan_matches arabic_indic two_links_html
     [latin ''getattachment/a/trips_22_11_November-csv.aspx'',
      latin ''getattachment/b/trips_22_12_December-csv.aspx'']
   \<and> get_links arabic_indic two_links_html =
       {latin EMT @ latin ''getattachment/a/trips_22_11_November-csv.aspx'',
        latin EMT @ latin ''getattachment/b/trips_22_12_December-csv.aspx''}
   \<and> scan_matches arabic_indic arabic_year_html
     [latin ''getattachment/c/trips_'' @ [Wide 1634, Wide 1634] @ latin ''_11_November-csv.aspx'']
   \<and> get_links arabic_indic arabic_year_html =
       {latin EMT @ latin ''getattachment/c/trips_'' @ [Wide 1634, Wide 1634]
          @ latin ''_11_November-csv.aspx''}
   \<and> sublist (latin ''html'') (latin ''<html></html>'')
   \<and> \<not> regex_pattern arabic_indic (latin ''html'')
   \<and> get_links arabic_indic (latin ''<html></html>'') = {}"
proof -
  have a: "scan_matches arabic_indic two_links_html
     [latin ''getattachment/a/trips_22_11_November-csv.aspx'',
      latin ''getattachment/b/trips_22_12_December-csv.aspx'']"
    using scan_matches_findall [of arabic_indic two_links_html]
    by (simp only: findall_two_links)
  have b: "scan_matches arabic_indic arabic_year_html
     [latin ''getattachment/c/trips_'' @ [Wide 1634, Wide 1634] @ latin ''_11_November-csv.aspx'']"
    using scan_matches_findall [of arabic_indic arabic_year_html]
    by (simp only: findall_arabic_year)
  have s: "sublist (latin ''html'') (latin ''<html></html>'')"
    using sublist_appendI [of "latin ''html''" "latin ''<''" "latin ''></html>''"]
    by (simp add: latin_def)
  have e: "get_links arabic_indic (latin ''<html></html>'') = {}"
    by (simp add: get_links_def findall_no_links)
  from a get_links_scan [of arabic_indic two_links_html]
  have a': "get_links arabic_indic two_links_html =
       {latin EMT @ latin ''getattachment/a/trips_22_11_November-csv.aspx'',
        latin EMT @ latin ''getattachment/b/trips_22_12_December-csv.aspx''}"
    by auto
  from b get_links_scan [of arabic_indic arabic_year_html]
  have b': "get_links arabic_indic arabic_year_html =
       {latin EMT @ latin ''getattachment/c/trips_'' @ [Wide 1634, Wide 1634]
          @ latin ''_11_November-csv.aspx''}"
    by auto
  from e s get_links_scan [of arabic_indic "latin ''<html></html>''"]
  have n: "\<not> regex_pattern arabic_indic (latin ''html'')"
    by blast
  from a a' b b' s n e show ?thesis
    by blast
qed

section \<open>Downloading\<close>

text \<open>
  C10. When the month is outside 1..12 or the year is none of 21, 22, 23, \<open>get_csv\<close>
  raises the value error of \<open>get_url\<close> and leaves the network as it was: no request
  has been issued.
\<close>

theorem get_csv_invalid_no_request:
  "\<not> (1 \<le> month \<and> month \<le> 12) \<or> year \<notin> {21, 22, 23} \<Longrightarrow>
     \<exists>msg. get_csv enlaces_validos month year net = (Inl (ValueError msg), net)"
proof -
  assume "\<not> (1 \<le> month \<and> month \<le> 12) \<or> year \<notin> {21, 22, 23}"
  then obtain msg where "get_url enlaces_validos month year = Inl (ValueError msg)"
    using get_url_invalid by blast
  then have "get_csv enlaces_validos month year net = (Inl (ValueError msg), net)"
    by (simp add: get_csv_def)
  then show ?thesis ..
qed

theorem get_csv_invalid_no_request_witness:
  "\<not> (1 \<le> (13::int) \<and> (13::int) \<le> 12)
   \<and> (\<exists>msg. get_csv [''https://opendata.emtmadrid.es/getattachment/trips_22_03_march-csv.aspx''] 13 22
               \<lparr>serve = (\<lambda>url. Inl (ConnectionError url)), requested = []\<rparr>
             = (Inl (ValueError msg),
                \<lparr>serve = (\<lambda>url. Inl (ConnectionError url)), requested = []\<rparr>))"
  using get_csv_invalid_no_request [of 13 22
      "[''https://opendata.emtmadrid.es/getattachment/trips_22_03_march-csv.aspx'']"
      "\<lparr>serve = (\<lambda>url. Inl (ConnectionError url)), requested = []\<rparr>"]
  by simp

text \<open>Once \<open>get_url\<close> has resolved the link, exactly that URL is requested.\<close>

lemma get_csv_valid_requests:
  assumes "get_url enlaces_validos month year = Inr url"
  shows "requested (snd (get_csv enlaces_validos month year net)) = requested net @ [url]"
  using assms
  by (simp add: get_csv_def requests_get_def split: sum.splits option.splits)

section \<open>Tables\<close>

lemma map_of_filter_frame:
  "map_of (columns (filter_frame keep df)) name =
     map_option (select_rows keep) (map_of (columns df) name)"
  by (simp add: filter_frame_def map_of_map)

lemma get_column_filter_frame:
  "get_column df name = Inr vs \<Longrightarrow>
     get_column (filter_frame keep df) name = Inr (select_rows keep vs)"
  by (auto simp: get_column_def map_of_filter_frame split: option.splits)

lemma index_clean_column: "index (clean_column fmt df name) = index df"
  by (simp add: clean_column_def set_column_def split: option.splits)

lemma map_of_clean_column:
  "map_of (columns (clean_column fmt df name)) k =
     (if k = name then map_option (map (clean_value fmt)) (map_of (columns df) name)
      else map_of (columns df) k)"
  by (simp add: clean_column_def set_column_def update_conv' split: option.splits)

lemma index_clean: "index (clean fmt df) = index (dropna_all df)"
  by (simp add: clean_def col_names_def index_clean_column)

lemma map_of_clean:
  "map_of (columns (clean fmt df)) k =
     (if k \<in> set col_names
      then map_option (map (clean_value fmt)) (map_of (columns (dropna_all df)) k)
      else map_of (columns (dropna_all df)) k)"
  by (simp add: clean_def col_names_def map_of_clean_column)

lemma get_column_clean:
  assumes "name \<in> set col_names" and "get_column (dropna_all df) name = Inr vs"
  shows "get_column (clean fmt df) name = Inr (map (clean_value fmt) vs)"
  using assms by (auto simp: get_column_def map_of_clean split: option.splits)

lemma get_column_clean_other:
  assumes "name \<notin> set col_names"
  shows "get_column (clean fmt df) name = get_column (dropna_all df) name"
  using assms by (simp add: get_column_def map_of_clean)

lemma length_notna_fold:
  "list_all (\<lambda>(name, vs). length vs = k) cols \<Longrightarrow>
     length (foldr (\<lambda>(name, vs) acc. map2 (\<or>) (map P vs) acc) cols (replicate k False)) = k"
  by (induction cols) auto

lemma length_notna_any: "well_formed df \<Longrightarrow> length (notna_any df) = length (index df)"
  unfolding well_formed_def notna_any_def by (simp add: length_notna_fold)

lemma length_select_rows:
  "length keep = length xs \<Longrightarrow> length (select_rows keep xs) = length (filter id keep)"
  unfolding select_rows_def by (induction keep xs rule: list_induct2) auto

lemma names_filter_frame: "map fst (columns (filter_frame keep df)) = map fst (columns df)"
  by (simp add: filter_frame_def case_prod_unfold comp_def)

lemma well_formed_filter_frame:
  assumes "well_formed df" and "length keep = length (index df)"
  shows "well_formed (filter_frame keep df)"
proof -
  have "length (select_rows keep vs) = length (select_rows keep (index df))"
    if "length vs = length (index df)" for vs :: "cell list"
    using that assms(2) by (simp add: length_select_rows)
  with assms(1) have "list_all (\<lambda>(name, vs). length vs = length (index (filter_frame keep df)))
      (columns (filter_frame keep df))"
    by (auto simp: well_formed_def filter_frame_def list_all_iff)
  with assms(1) show ?thesis
    by (simp add: well_formed_def names_filter_frame)
qed

lemma well_formed_dropna_all: "well_formed df \<Longrightarrow> well_formed (dropna_all df)"
  unfolding dropna_all_def by (simp add: well_formed_filter_frame length_notna_any)

lemma set_update_subset: "set (AList.update k v al) \<subseteq> insert (k, v) (set al)"
  by (induction al) auto

lemma names_clean_column: "map fst (columns (clean_column fmt df name)) = map fst (columns df)"
proof (cases "map_of (columns df) name")
  case None
  then show ?thesis by (simp add: clean_column_def)
next
  case (Some vs)
  then have "name \<in> set (map fst (columns df))"
    by (metis map_of_eq_None_iff option.distinct(1) set_map)
  with Some show ?thesis
    by (simp add: clean_column_def set_column_def update_keys)
qed

lemma well_formed_clean_column:
  assumes "well_formed df"
  shows "well_formed (clean_column fmt df name)"
proof (cases "map_of (columns df) name")
  case None
  with assms show ?thesis by (simp add: clean_column_def)
next
  case (Some vs)
  then have "(name, vs) \<in> set (columns df)"
    by (rule map_of_SomeD)
  with assms have len: "length (map (clean_value fmt) vs) = length (index df)"
    by (auto simp: well_formed_def list_all_iff)
  have "list_all (\<lambda>(n, vs). length vs = length (index df))
      (AList.update name (map (clean_value fmt) vs) (columns df))"
    using assms len set_update_subset [of name "map (clean_value fmt) vs" "columns df"]
    by (auto simp: well_formed_def list_all_iff)
  moreover have "distinct (map fst (columns (clean_column fmt df name)))"
    using assms by (simp add: names_clean_column well_formed_def)
  ultimately show ?thesis
    using Some by (simp add: well_formed_def clean_column_def set_column_def)
qed

lemma names_clean: "map fst (columns (clean fmt df)) = map fst (columns df)"
  by (simp add: clean_def col_names_def names_clean_column dropna_all_def names_filter_frame)

lemma well_formed_clean: "well_formed df \<Longrightarrow> well_formed (clean fmt df)"
  by (simp add: clean_def col_names_def well_formed_clean_column well_formed_dropna_all)

lemma raw_table_clean: "raw_table raw \<Longrightarrow> raw_table (clean fmt raw)"
  by (simp add: raw_table_def names_clean well_formed_clean)

lemma get_column_length:
  assumes "well_formed df" and "get_column df name = Inr vs"
  shows "length vs = length (index df)"
proof -
  from assms(2) have "(name, vs) \<in> set (columns df)"
    by (auto simp: get_column_def split: option.splits dest: map_of_SomeD)
  with assms(1) show ?thesis
    by (auto simp: well_formed_def list_all_iff)
qed

lemma get_column_present:
  assumes "name \<in> set (map fst (columns df))"
  shows "\<exists>vs. get_column df name = Inr vs"
proof -
  from assms have "map_of (columns df) name \<noteq> None"
    by (simp add: map_of_eq_None_iff)
  then show ?thesis
    by (auto simp: get_column_def)
qed

section \<open>Cleaning\<close>

lemma notna_any_example: "notna_any example_raw = [True, True, True, False, True, True, True]"
  by (simp add: notna_any_def example_raw_def)

lemma notna_any_decimal_codes:
  "notna_any decimal_codes_raw = [True, True, True, False, True, True, True]"
  by (simp add: notna_any_def decimal_codes_raw_def set_column_def example_raw_def)

lemma station_unlock_decimal_codes:
  "get_column (dropna_all decimal_codes_raw) ''station_unlock'' =
     Inr [StrV ''A12'', StrV ''10.05'', StrV ''B.07'', StrV ''..00'', StrV ''A12'', StrV ''3'']"
proof -
  have "get_column decimal_codes_raw ''station_unlock'' =
      Inr [StrV ''A12'', StrV ''10.05'', StrV ''B.07'', NaN, StrV ''..00'', StrV ''A12'', StrV ''3'']"
    by (simp add: get_column_def decimal_codes_raw_def set_column_def update_conv')
  then show ?thesis
    unfolding dropna_all_def notna_any_decimal_codes
    by (simp add: get_column_filter_frame select_rows_def)
qed

text \<open>
  C1. The cleaning step removes every occurrence of \<open>.0\<close> from the identifiers, not a
  trailing one only: \<open>10.05\<close> and \<open>B.07\<close>, which do not end in \<open>.0\<close>, are not left as they
  are, and \<open>..00\<close> is turned into a value that ends in \<open>.0\<close>.
\<close>

theorem clean_removes_every_dot_zero:
  "get_column (clean fmt decimal_codes_raw) ''station_unlock'' =
     Inr [StrV ''A12'', StrV ''105'', StrV ''B7'', StrV ''.0'', StrV ''A12'', StrV ''3'']"
proof -
  have "''station_unlock'' \<in> set col_names"
    by (simp add: col_names_def)
  then have "get_column (clean fmt decimal_codes_raw) ''station_unlock'' =
      Inr (map (clean_value fmt)
        [StrV ''A12'', StrV ''10.05'', StrV ''B.07'', StrV ''..00'', StrV ''A12'', StrV ''3''])"
    using station_unlock_decimal_codes by (rule get_column_clean)
  then show ?thesis
    by (simp add: clean_value_def py_str_def)
qed

text \<open>
  C9. A missing value in one of the four identifier columns, in a row that is left
  after the empty rows have been dropped, is the string \<open>nan\<close> after cleaning; the rows
  of the cleaned table are those left after the drop.
\<close>

theorem clean_missing_identifier:
  assumes "name \<in> set col_names"
    and "get_column (dropna_all df) name = Inr vs"
    and "i < length vs"
    and "vs ! i = NaN"
  shows "index (clean fmt df) = index (dropna_all df) \<and>
         (\<exists>vs'. get_column (clean fmt df) name = Inr vs' \<and> length vs' = length vs \<and>
                vs' ! i = StrV ''nan'')"
proof -
  have "clean_value fmt NaN = StrV ''nan''"
    by (simp add: clean_value_def py_str_def)
  with assms have "map (clean_value fmt) vs ! i = StrV ''nan''"
    by simp
  moreover have "get_column (clean fmt df) name = Inr (map (clean_value fmt) vs)"
    using assms(1,2) by (rule get_column_clean)
  ultimately show ?thesis
    by (simp add: index_clean)
qed

lemma station_lock_example:
  "get_column (dropna_all example_raw) ''station_lock'' =
     Inr [FloatV 1, FloatV 2, FloatV 3, FloatV 4, FloatV 1, NaN]"
proof -
  have "get_column example_raw ''station_lock'' =
      Inr [FloatV 1, FloatV 2, FloatV 3, NaN, FloatV 4, FloatV 1, NaN]"
    by (simp add: get_column_def example_raw_def)
  then show ?thesis
    unfolding dropna_all_def notna_any_example
    by (simp add: get_column_filter_frame select_rows_def)
qed

theorem clean_missing_identifier_witness:
  "''station_lock'' \<in> set col_names
   \<and> get_column (dropna_all example_raw) ''station_lock'' =
       Inr [FloatV 1, FloatV 2, FloatV 3, FloatV 4, FloatV 1, NaN]
   \<and> (5::nat) < length [FloatV 1, FloatV 2, FloatV 3, FloatV 4, FloatV 1, NaN]
   \<and> [FloatV 1, FloatV 2, FloatV 3, FloatV 4, FloatV 1, NaN] ! 5 = NaN
   \<and> (\<exists>vs'. get_column (clean whole_float_str example_raw) ''station_lock'' = Inr vs' \<and>
             vs' ! 5 = StrV ''nan'')"
proof -
  have a: "''station_lock'' \<in> set col_names"
    by (simp add: col_names_def)
  have c: "(5::nat) < length [FloatV 1, FloatV 2, FloatV 3, FloatV 4, FloatV 1, NaN]"
    by simp
  have d: "[FloatV 1, FloatV 2, FloatV 3, FloatV 4, FloatV 1, NaN] ! 5 = NaN"
    by simp
  from clean_missing_identifier [OF a station_lock_example c d, of whole_float_str]
  have "\<exists>vs'. get_column (clean whole_float_str example_raw) ''station_lock'' = Inr vs' \<and>
             vs' ! 5 = StrV ''nan''"
    by blast
  with a station_lock_example c d show ?thesis
    by blast
qed


section \<open>The most popular stations\<close>

lemma set_select_rows:
  "set (select_rows (map P xs) ys) = {y. \<exists>x. (x, y) \<in> set (zip xs ys) \<and> P x}"
proof -
  have "zip (map P xs) ys = map (\<lambda>(x, y). (P x, y)) (zip xs ys)"
    by (simp add: zip_map1)
  then show ?thesis
    unfolding select_rows_def by (force simp: filter_map comp_def case_prod_unfold)
qed

lemma length_select_rows_filter:
  "length xs = length ys \<Longrightarrow> length (select_rows (map P xs) ys) = length (filter P xs)"
  unfolding select_rows_def by (induction xs ys rule: list_induct2) auto

lemma group_sizes_no_missing:
  assumes "NaN \<notin> set stations"
  shows "group_sizes stations = map (\<lambda>k. (k, count_list stations k)) (remdups stations)"
proof -
  from assms have "filter (\<lambda>k. k \<noteq> NaN) stations = stations"
    by (simp add: filter_id_conv) metis
  then show ?thesis
    by (simp add: group_sizes_def)
qed

lemma top_stations:
  assumes "NaN \<notin> set stations"
  shows "set (map fst (filter (\<lambda>(k, n). Some n = max_count (group_sizes stations))
                        (group_sizes stations)))
         = {s. is_most_popular stations s}"
proof (cases "stations = []")
  case True
  then show ?thesis
    by (simp add: group_sizes_def is_most_popular_def)
next
  case False
  let ?counts = "count_list stations ` set stations"
  have fin: "finite ?counts" and ne: "?counts \<noteq> {}"
    using False by auto
  have gs: "group_sizes stations = map (\<lambda>k. (k, count_list stations k)) (remdups stations)"
    using assms by (rule group_sizes_no_missing)
  have "set (map snd (group_sizes stations)) = ?counts"
    unfolding gs by (simp add: comp_def)
  moreover have "group_sizes stations \<noteq> []"
    unfolding gs using False by simp
  ultimately have mc: "max_count (group_sizes stations) = Some (Max ?counts)"
    by (simp add: max_count_def)
  have "is_most_popular stations s \<longleftrightarrow> s \<in> set stations \<and> count_list stations s = Max ?counts"
    for s
  proof
    assume p: "is_most_popular stations s"
    then have "count_list stations s \<in> ?counts"
      and "\<forall>c \<in> ?counts. c \<le> count_list stations s"
      by (auto simp: is_most_popular_def)
    with fin have "Max ?counts = count_list stations s"
      by (intro Max_eqI) auto
    with p show "s \<in> set stations \<and> count_list stations s = Max ?counts"
      by (simp add: is_most_popular_def)
  next
    assume "s \<in> set stations \<and> count_list stations s = Max ?counts"
    with fin show "is_most_popular stations s"
      by (auto simp: is_most_popular_def)
  qed
  then have pop: "{s. is_most_popular stations s}
      = {s \<in> set stations. count_list stations s = Max ?counts}"
    by blast
  have "filter (\<lambda>(k, n). Some n = Some (Max ?counts))
          (map (\<lambda>k. (k, count_list stations k)) xs)
        = map (\<lambda>k. (k, count_list stations k))
            (filter (\<lambda>k. count_list stations k = Max ?counts) xs)" for xs
    by (induction xs) simp_all
  then have "map fst (filter (\<lambda>(k, n). Some n = max_count (group_sizes stations))
                        (group_sizes stations))
      = filter (\<lambda>k. count_list stations k = Max ?counts) (remdups stations)"
    unfolding gs mc [unfolded gs] by (simp add: comp_def)
  then show ?thesis
    unfolding pop by auto
qed

lemma most_popular_general:
  assumes "get_column (data self) ''station_unlock'' = Inr stations"
    and "get_column (data self) ''address_unlock'' = Inr addresses"
    and "NaN \<notin> set stations"
  shows "get_most_popular_stations self = (Inr (popular_addresses stations addresses), self)"
proof -
  let ?top = "map fst (filter (\<lambda>(k, n). Some n = max_count (group_sizes stations))
                        (group_sizes stations))"
  have "get_column (filter_frame (map (\<lambda>s. s \<in> set ?top) stations) (data self))
          ''address_unlock''
        = Inr (select_rows (map (\<lambda>s. s \<in> set ?top) stations) addresses)"
    using assms(2) by (rule get_column_filter_frame)
  moreover have "set (select_rows (map (\<lambda>s. s \<in> set ?top) stations) addresses)
      = popular_addresses stations addresses"
    unfolding set_select_rows top_stations [OF assms(3)] popular_addresses_def by simp
  ultimately show ?thesis
    using assms(1) by (simp add: get_most_popular_stations_def Let_def)
qed

lemma uses_general:
  assumes "get_most_popular_stations self = (Inr popular, self)"
    and "get_column (data self) ''address_unlock'' = Inr addresses"
    and "length addresses = length (index (data self))"
  shows "get_uses_from_most_populars self =
           (Inr (length (filter (\<lambda>a. a \<in> popular) addresses)), self)"
  using assms
  by (simp add: get_uses_from_most_populars_def Let_def filter_frame_def
      length_select_rows_filter)

lemma cleaned_columns:
  assumes "raw_table raw" and "name \<in> set csv_columns"
  shows "\<exists>vs. get_column (clean fmt raw) name = Inr vs \<and>
              length vs = length (index (clean fmt raw))"
proof -
  from assms(1) have r: "raw_table (clean fmt raw)"
    by (rule raw_table_clean)
  with assms(2) have "name \<in> set (map fst (columns (clean fmt raw)))"
    by (simp add: raw_table_def)
  then obtain vs where "get_column (clean fmt raw) name = Inr vs"
    using get_column_present by blast
  moreover from this r have "length vs = length (index (clean fmt raw))"
    by (auto simp: raw_table_def intro: get_column_length)
  ultimately show ?thesis by blast
qed

lemma cleaned_identifiers_no_missing:
  assumes "name \<in> set col_names" and "get_column (clean fmt raw) name = Inr vs"
  shows "NaN \<notin> set vs"
proof -
  from assms obtain ws where "map_of (columns (dropna_all raw)) name = Some ws"
    and "vs = map (clean_value fmt) ws"
    by (auto simp: get_column_def map_of_clean split: option.splits if_splits)
  then show ?thesis
    by (auto simp: clean_value_def)
qed

text \<open>
  C5. For every trip dataset, \<open>get_most_popular_stations\<close> returns the unlock
  addresses of the rows whose unlock station has as many rows as any station has (every
  station tied at the maximum counts), and \<open>get_uses_from_most_populars\<close> returns the
  number of rows whose unlock address is one of these.
\<close>

theorem most_popular_stations_spec:
  assumes "raw_table raw"
  shows "\<exists>stations addresses.
           get_column (data (BiciMad fmt month year raw)) ''station_unlock'' = Inr stations \<and>
           get_column (data (BiciMad fmt month year raw)) ''address_unlock'' = Inr addresses \<and>
           fst (get_most_popular_stations (BiciMad fmt month year raw))
             = Inr (popular_addresses stations addresses) \<and>
           fst (get_uses_from_most_populars (BiciMad fmt month year raw))
             = Inr (length (filter (\<lambda>a. a \<in> popular_addresses stations addresses) addresses))"
proof -
  let ?self = "BiciMad fmt month year raw"
  have d: "data ?self = clean fmt raw"
    by (simp add: BiciMad_def)
  obtain stations where s: "get_column (data ?self) ''station_unlock'' = Inr stations"
    using cleaned_columns [OF assms, of "''station_unlock''" fmt]
    unfolding d by (auto simp: csv_columns_def)
  obtain addresses where a: "get_column (data ?self) ''address_unlock'' = Inr addresses"
    and l: "length addresses = length (index (data ?self))"
    using cleaned_columns [OF assms, of "''address_unlock''" fmt]
    unfolding d by (auto simp: csv_columns_def)
  have "NaN \<notin> set stations"
    using s unfolding d by (intro cleaned_identifiers_no_missing) (auto simp: col_names_def)
  with s a have p: "get_most_popular_stations ?self = (Inr (popular_addresses stations addresses), ?self)"
    by (rule most_popular_general)
  from p a l have "get_uses_from_most_populars ?self =
      (Inr (length (filter (\<lambda>a. a \<in> popular_addresses stations addresses) addresses)), ?self)"
    by (rule uses_general)
  with s a p show ?thesis
    by (intro exI [of _ stations] exI [of _ addresses]) simp
qed

section \<open>The example month\<close>

lemma whole_float_clean:
  "clean_value whole_float_str (FloatV 1) = StrV ''1''"
  "clean_value whole_float_str (FloatV 2) = StrV ''2''"
  "clean_value whole_float_str (FloatV 3) = StrV ''3''"
  "clean_value whole_float_str (FloatV 4) = StrV ''4''"
  by (simp_all add: clean_value_def py_str_def whole_float_str_def str_int_def
      nat_digits_small digit_char_simps)

lemma raw_table_example: "raw_table example_raw"
  by (simp add: raw_table_def well_formed_def example_raw_def csv_columns_def)

lemma index_example:
  "index (data example_month) =
     [Some nov1, Some nov1, Some nov1, Some nov1, Some nov1, Some nov2]"
proof -
  have "index (data example_month) = index (dropna_all example_raw)"
    by (simp add: example_month_def BiciMad_def index_clean)
  also have "\<dots> = [Some nov1, Some nov1, Some nov1, Some nov1, Some nov1, Some nov2]"
    unfolding dropna_all_def notna_any_example
    by (simp add: filter_frame_def select_rows_def example_raw_def)
  finally show ?thesis .
qed

lemma station_unlock_example:
  "get_column (data example_month) ''station_unlock'' =
     Inr [StrV ''2'', StrV ''1'', StrV ''1'', StrV ''3'', StrV ''4'', StrV ''3'']"
proof -
  have "get_column example_raw ''station_unlock'' =
      Inr [FloatV 2, FloatV 1, FloatV 1, NaN, FloatV 3, FloatV 4, FloatV 3]"
    by (simp add: get_column_def example_raw_def)
  then have "get_column (dropna_all example_raw) ''station_unlock'' =
      Inr [FloatV 2, FloatV 1, FloatV 1, FloatV 3, FloatV 4, FloatV 3]"
    unfolding dropna_all_def notna_any_example
    by (simp add: get_column_filter_frame select_rows_def)
  then have "get_column (clean whole_float_str example_raw) ''station_unlock'' =
      Inr (map (clean_value whole_float_str)
             [FloatV 2, FloatV 1, FloatV 1, FloatV 3, FloatV 4, FloatV 3])"
    by (intro get_column_clean) (simp_all add: col_names_def)
  then show ?thesis
    by (simp add: example_month_def BiciMad_def whole_float_clean)
qed

lemma address_unlock_example:
  "get_column (data example_month) ''address_unlock'' =
     Inr [StrV ''Calle Jesus 1'', StrV ''Calle Manuel Silvela'', StrV ''Calle Manuel Silvela'',
          StrV ''Calle Alcala'', StrV ''Paseo de la Chopera'', StrV ''Calle Alcala'']"
proof -
  have "get_column example_raw ''address_unlock'' =
      Inr [StrV ''Calle Jesus 1'', StrV ''Calle Manuel Silvela'', StrV ''Calle Manuel Silvela'',
           NaN, StrV ''Calle Alcala'', StrV ''Paseo de la Chopera'', StrV ''Calle Alcala'']"
    by (simp add: get_column_def example_raw_def)
  then have "get_column (dropna_all example_raw) ''address_unlock'' =
      Inr [StrV ''Calle Jesus 1'', StrV ''Calle Manuel Silvela'', StrV ''Calle Manuel Silvela'',
           StrV ''Calle Alcala'', StrV ''Paseo de la Chopera'', StrV ''Calle Alcala'']"
    unfolding dropna_all_def notna_any_example
    by (simp add: get_column_filter_frame select_rows_def)
  then show ?thesis
    by (simp add: example_month_def BiciMad_def get_column_clean_other col_names_def)
qed

lemma trip_minutes_example:
  "get_column (data example_month) ''trip_minutes'' =
     Inr [FloatV 5, FloatV 10, FloatV 12, FloatV 7, FloatV 8, FloatV (1 / 2)]"
proof -
  have "get_column example_raw ''trip_minutes'' =
      Inr [FloatV 5, FloatV 10, FloatV 12, NaN, FloatV 7, FloatV 8, FloatV (1 / 2)]"
    by (simp add: get_column_def example_raw_def)
  then have "get_column (dropna_all example_raw) ''trip_minutes'' =
      Inr [FloatV 5, FloatV 10, FloatV 12, FloatV 7, FloatV 8, FloatV (1 / 2)]"
    unfolding dropna_all_def notna_any_example
    by (simp add: get_column_filter_frame select_rows_def)
  then show ?thesis
    by (simp add: example_month_def BiciMad_def get_column_clean_other col_names_def)
qed

lemma popular_addresses_filter:
  "popular_addresses stations addresses =
     set (map snd (filter (\<lambda>(s, a). is_most_popular stations s) (zip stations addresses)))"
  unfolding popular_addresses_def by force

lemma popular_addresses_example:
  "popular_addresses
     [StrV ''2'', StrV ''1'', StrV ''1'', StrV ''3'', StrV ''4'', StrV ''3'']
     [StrV ''Calle Jesus 1'', StrV ''Calle Manuel Silvela'', StrV ''Calle Manuel Silvela'',
      StrV ''Calle Alcala'', StrV ''Paseo de la Chopera'', StrV ''Calle Alcala'']
   = {StrV ''Calle Manuel Silvela'', StrV ''Calle Alcala''}"
proof -
  have p: "is_most_popular [StrV ''2'', StrV ''1'', StrV ''1'', StrV ''3'', StrV ''4'', StrV ''3''] s
      \<longleftrightarrow> s = StrV ''1'' \<or> s = StrV ''3''" for s
    by (auto simp: is_most_popular_def)
  show ?thesis
    unfolding popular_addresses_filter by (simp add: p)
qed

theorem most_popular_stations_spec_witness:
  "raw_table example_raw
   \<and> fst (get_most_popular_stations (BiciMad whole_float_str 11 22 example_raw))
       = Inr {StrV ''Calle Manuel Silvela'', StrV ''Calle Alcala''}
   \<and> fst (get_uses_from_most_populars (BiciMad whole_float_str 11 22 example_raw)) = Inr 4"
proof -
  from most_popular_stations_spec [OF raw_table_example, of whole_float_str 11 22]
  obtain stations addresses where
    "get_column (data example_month) ''station_unlock'' = Inr stations"
    "get_column (data example_month) ''address_unlock'' = Inr addresses"
    and r: "fst (get_most_popular_stations (BiciMad whole_float_str 11 22 example_raw))
        = Inr (popular_addresses stations addresses)"
      "fst (get_uses_from_most_populars (BiciMad whole_float_str 11 22 example_raw))
        = Inr (length (filter (\<lambda>a. a \<in> popular_addresses stations addresses) addresses))"
    unfolding example_month_def by blast
  then have "stations = [StrV ''2'', StrV ''1'', StrV ''1'', StrV ''3'', StrV ''4'', StrV ''3'']"
    and "addresses =
      [StrV ''Calle Jesus 1'', StrV ''Calle Manuel Silvela'', StrV ''Calle Manuel Silvela'',
       StrV ''Calle Alcala'', StrV ''Paseo de la Chopera'', StrV ''Calle Alcala'']"
    by (simp_all add: station_unlock_example address_unlock_example)
  with r show ?thesis
    by (simp add: popular_addresses_example raw_table_example)
qed


section \<open>The summary\<close>

text \<open>
  C6. For every trip dataset whose column of minutes holds numbers and missing values,
  \<open>resume\<close> returns the six entries \<open>year\<close>, \<open>month\<close>, \<open>total_uses\<close>, \<open>total_time\<close>,
  \<open>most_popular_station\<close>, \<open>uses_from_most_popular\<close> in this order; \<open>total_uses\<close> is the
  number of rows of the cleaned table, \<open>total_time\<close> the sum of the minutes divided by
  60, and the last two are the results of \<open>get_most_popular_stations\<close> and of
  \<open>get_uses_from_most_populars\<close> on the same instance.
\<close>

theorem resume_spec:
  assumes "raw_table raw"
    and "get_column (data (BiciMad fmt month year raw)) ''trip_minutes'' = Inr minutes"
    and "list_all summable minutes"
  shows "\<exists>popular uses.
           fst (get_most_popular_stations (BiciMad fmt month year raw)) = Inr popular \<and>
           fst (get_uses_from_most_populars (BiciMad fmt month year raw)) = Inr uses \<and>
           fst (resume (BiciMad fmt month year raw)) =
             Inr [(''year'', PInt year),
                  (''month'', PInt month),
                  (''total_uses'', PInt (int (length (index (data (BiciMad fmt month year raw)))))),
                  (''total_time'', PNum (sum_list (map num_value minutes) / 60)),
                  (''most_popular_station'', PSet popular),
                  (''uses_from_most_popular'', PInt (int uses))]"
proof -
  let ?self = "BiciMad fmt month year raw"
  have d: "data ?self = clean fmt raw"
    by (simp add: BiciMad_def)
  obtain stations where s: "get_column (data ?self) ''station_unlock'' = Inr stations"
    using cleaned_columns [OF assms(1), of "''station_unlock''" fmt]
    unfolding d by (auto simp: csv_columns_def)
  obtain addresses where a: "get_column (data ?self) ''address_unlock'' = Inr addresses"
    and l: "length addresses = length (index (data ?self))"
    using cleaned_columns [OF assms(1), of "''address_unlock''" fmt]
    unfolding d by (auto simp: csv_columns_def)
  have "NaN \<notin> set stations"
    using s unfolding d by (intro cleaned_identifiers_no_missing) (auto simp: col_names_def)
  with s a have p: "get_most_popular_stations ?self = (Inr (popular_addresses stations addresses), ?self)"
    by (rule most_popular_general)
  from p a l have u: "get_uses_from_most_populars ?self =
      (Inr (length (filter (\<lambda>a. a \<in> popular_addresses stations addresses) addresses)), ?self)"
    by (rule uses_general)
  have y: "year_of ?self = year" "month_of ?self = month"
    by (simp_all add: BiciMad_def)
  from assms(3) have c: "column_sum minutes = Inr (sum_list (map num_value minutes))"
    by (simp add: column_sum_def)
  have "fst (resume ?self) =
      Inr [(''year'', PInt year),
           (''month'', PInt month),
           (''total_uses'', PInt (int (length (index (data ?self))))),
           (''total_time'', PNum (sum_list (map num_value minutes) / 60)),
           (''most_popular_station'', PSet (popular_addresses stations addresses)),
           (''uses_from_most_popular'',
            PInt (int (length (filter (\<lambda>a. a \<in> popular_addresses stations addresses) addresses))))]"
    by (simp add: resume_def assms(2) c p u y)
  with p u show ?thesis
    by (intro exI [of _ "popular_addresses stations addresses"]
        exI [of _ "length (filter (\<lambda>a. a \<in> popular_addresses stations addresses) addresses)"])
      simp
qed

lemma most_popular_example:
  "get_most_popular_stations example_month =
     (Inr {StrV ''Calle Manuel Silvela'', StrV ''Calle Alcala''}, example_month)"
proof -
  have "NaN \<notin> set [StrV ''2'', StrV ''1'', StrV ''1'', StrV ''3'', StrV ''4'', StrV ''3'']"
    by simp
  with station_unlock_example address_unlock_example show ?thesis
    unfolding popular_addresses_example [symmetric] by (rule most_popular_general)
qed

lemma uses_example: "get_uses_from_most_populars example_month = (Inr 4, example_month)"
proof -
  have "get_uses_from_most_populars example_month =
      (Inr (length (filter (\<lambda>a. a \<in> {StrV ''Calle Manuel Silvela'', StrV ''Calle Alcala''})
         [StrV ''Calle Jesus 1'', StrV ''Calle Manuel Silvela'', StrV ''Calle Manuel Silvela'',
          StrV ''Calle Alcala'', StrV ''Paseo de la Chopera'', StrV ''Calle Alcala''])),
       example_month)"
    using most_popular_example address_unlock_example
    by (rule uses_general) (simp add: index_example)
  then show ?thesis by simp
qed

theorem resume_spec_witness:
  "raw_table example_raw
   \<and> get_column (data (BiciMad whole_float_str 11 22 example_raw)) ''trip_minutes''
       = Inr [FloatV 5, FloatV 10, FloatV 12, FloatV 7, FloatV 8, FloatV (1 / 2)]
   \<and> list_all summable [FloatV 5, FloatV 10, FloatV 12, FloatV 7, FloatV 8, FloatV (1 / 2)]
   \<and> fst (resume (BiciMad whole_float_str 11 22 example_raw)) =
        Inr [(''year'', PInt 22),
             (''month'', PInt 11),
             (''total_uses'', PInt 6),
             (''total_time'', PNum (17 / 24)),
             (''most_popular_station'', PSet {StrV ''Calle Manuel Silvela'', StrV ''Calle Alcala''}),
             (''uses_from_most_popular'', PInt 4)]"
proof -
  have m: "get_column (data (BiciMad whole_float_str 11 22 example_raw)) ''trip_minutes''
       = Inr [FloatV 5, FloatV 10, FloatV 12, FloatV 7, FloatV 8, FloatV (1 / 2)]"
    using trip_minutes_example by (simp add: example_month_def)
  have s: "list_all summable [FloatV 5, FloatV 10, FloatV 12, FloatV 7, FloatV 8, FloatV (1 / 2)]"
    by simp
  from resume_spec [OF raw_table_example m s]
  obtain popular uses where
    "fst (get_most_popular_stations example_month) = Inr popular"
    "fst (get_uses_from_most_populars example_month) = Inr uses"
    and r: "fst (resume (BiciMad whole_float_str 11 22 example_raw)) =
        Inr [(''year'', PInt 22),
             (''month'', PInt 11),
             (''total_uses'', PInt (int (length (index (data example_month))))),
             (''total_time'', PNum (sum_list (map num_value
                 [FloatV 5, FloatV 10, FloatV 12, FloatV 7, FloatV 8, FloatV (1 / 2)]) / 60)),
             (''most_popular_station'', PSet popular),
             (''uses_from_most_popular'', PInt (int uses))]"
    unfolding example_month_def by blast
  then have "popular = {StrV ''Calle Manuel Silvela'', StrV ''Calle Alcala''}" and "uses = 4"
    by (simp_all add: most_popular_example uses_example)
  with r have "fst (resume (BiciMad whole_float_str 11 22 example_raw)) =
        Inr [(''year'', PInt 22),
             (''month'', PInt 11),
             (''total_uses'', PInt 6),
             (''total_time'', PNum (17 / 24)),
             (''most_popular_station'', PSet {StrV ''Calle Manuel Silvela'', StrV ''Calle Alcala''}),
             (''uses_from_most_popular'', PInt 4)]"
    by (simp add: index_example)
  with m s raw_table_example show ?thesis
    by blast
qed


section \<open>Hours per day\<close>

lemma notna_any_timed: "notna_any timed_raw = [True, True, True, False, True, True, True]"
  by (simp add: notna_any_def timed_raw_def example_raw_def)

lemma index_timed:
  "index (data (BiciMad fmt 11 22 timed_raw)) =
     [Some (nov1 + 8 * hour), Some (nov1 + 9 * hour), Some (nov1 + 9 * hour),
      Some (nov1 + 18 * hour), Some (nov1 + 18 * hour), Some (nov2 + 8 * hour)]"
proof -
  have "index (data (BiciMad fmt 11 22 timed_raw)) = index (dropna_all timed_raw)"
    by (simp add: BiciMad_def index_clean)
  also have "\<dots> = [Some (nov1 + 8 * hour), Some (nov1 + 9 * hour), Some (nov1 + 9 * hour),
      Some (nov1 + 18 * hour), Some (nov1 + 18 * hour), Some (nov2 + 8 * hour)]"
    unfolding dropna_all_def notna_any_timed
    by (simp add: filter_frame_def select_rows_def timed_raw_def)
  finally show ?thesis .
qed

lemma trip_minutes_timed:
  "get_column (data (BiciMad fmt 11 22 timed_raw)) ''trip_minutes'' =
     Inr [FloatV 5, FloatV 10, FloatV 12, FloatV 7, FloatV 8, FloatV (1 / 2)]"
proof -
  have "get_column timed_raw ''trip_minutes'' =
      Inr [FloatV 5, FloatV 10, FloatV 12, NaN, FloatV 7, FloatV 8, FloatV (1 / 2)]"
    by (simp add: get_column_def timed_raw_def example_raw_def)
  then have "get_column (dropna_all timed_raw) ''trip_minutes'' =
      Inr [FloatV 5, FloatV 10, FloatV 12, FloatV 7, FloatV 8, FloatV (1 / 2)]"
    unfolding dropna_all_def notna_any_timed
    by (simp add: get_column_filter_frame select_rows_def)
  then show ?thesis
    by (simp add: BiciMad_def get_column_clean_other col_names_def)
qed

lemma groupby_sum_timed:
  "groupby_sum
     [Some (nov1 + 8 * hour), Some (nov1 + 9 * hour), Some (nov1 + 9 * hour),
      Some (nov1 + 18 * hour), Some (nov1 + 18 * hour), Some (nov2 + 8 * hour)]
     [FloatV 5, FloatV 10, FloatV 12, FloatV 7, FloatV 8, FloatV (1 / 2)]
   = Inr [(nov1 + 8 * hour, 5), (nov1 + 9 * hour, 22), (nov1 + 18 * hour, 15),
          (nov2 + 8 * hour, 1 / 2)]"
  by (simp add: groupby_sum_def group_keys_def List.map_filter_def nov1_def nov2_def hour_def)

lemma groupby_sum_days:
  "groupby_sum
     [Some (date_of (nov1 + 8 * hour)), Some (date_of (nov1 + 9 * hour)),
      Some (date_of (nov1 + 9 * hour)), Some (date_of (nov1 + 18 * hour)),
      Some (date_of (nov1 + 18 * hour)), Some (date_of (nov2 + 8 * hour))]
     [FloatV 5, FloatV 10, FloatV 12, FloatV 7, FloatV 8, FloatV (1 / 2)]
   = Inr [(19297, 42), (19298, 1 / 2)]"
  by (simp add: groupby_sum_def group_keys_def List.map_filter_def nov1_def nov2_def hour_def
      date_of_def ns_per_day_def)

text \<open>
  C2. \<open>day_time\<close> groups the rows by the whole timestamp of the index, not by its
  calendar day: for a month whose five trips of 2022-11-01 start at three different
  hours, it returns three entries for that day, where the grouping by calendar day has
  one entry of 0.7 hours.
\<close>

theorem day_time_groups_by_timestamp:
  "fst (day_time (BiciMad fmt 11 22 timed_raw)) =
     Inr [(nov1 + 8 * hour, 1 / 12), (nov1 + 9 * hour, 11 / 30), (nov1 + 18 * hour, 1 / 4),
          (nov2 + 8 * hour, 1 / 120)]
   \<and> hours_per_calendar_day (data (BiciMad fmt 11 22 timed_raw)) =
       Inr [(nov1, 7 / 10), (nov2, 1 / 120)]"
proof
  show "fst (day_time (BiciMad fmt 11 22 timed_raw)) =
     Inr [(nov1 + 8 * hour, 1 / 12), (nov1 + 9 * hour, 11 / 30), (nov1 + 18 * hour, 1 / 4),
          (nov2 + 8 * hour, 1 / 120)]"
    by (simp add: day_time_def Let_def trip_minutes_timed index_timed groupby_sum_timed)
next
  have "hours_per_calendar_day (data (BiciMad fmt 11 22 timed_raw)) =
      Inr [(19297 * ns_per_day, 42 / 60), (19298 * ns_per_day, (1 / 2) / 60)]"
    by (simp add: hours_per_calendar_day_def trip_minutes_timed index_timed groupby_sum_days)
  then show "hours_per_calendar_day (data (BiciMad fmt 11 22 timed_raw)) =
       Inr [(nov1, 7 / 10), (nov2, 1 / 120)]"
    by (simp add: nov1_def nov2_def ns_per_day_def)
qed

text \<open>On the example month, whose timestamps are at midnight, the two agree.\<close>

lemma day_time_example:
  "fst (day_time example_month) = Inr [(nov1, 7 / 10), (nov2, 1 / 120)]"
  "hours_per_calendar_day (data example_month) = Inr [(nov1, 7 / 10), (nov2, 1 / 120)]"
proof -
  have "groupby_sum [Some nov1, Some nov1, Some nov1, Some nov1, Some nov1, Some nov2]
      [FloatV 5, FloatV 10, FloatV 12, FloatV 7, FloatV 8, FloatV (1 / 2)]
    = Inr [(nov1, 42), (nov2, 1 / 2)]"
    by (simp add: groupby_sum_def group_keys_def List.map_filter_def nov1_def nov2_def)
  then show "fst (day_time example_month) = Inr [(nov1, 7 / 10), (nov2, 1 / 120)]"
    by (simp add: day_time_def Let_def trip_minutes_example index_example)
  have "groupby_sum
      [Some (date_of nov1), Some (date_of nov1), Some (date_of nov1), Some (date_of nov1),
       Some (date_of nov1), Some (date_of nov2)]
      [FloatV 5, FloatV 10, FloatV 12, FloatV 7, FloatV 8, FloatV (1 / 2)]
    = Inr [(19297, 42), (19298, 1 / 2)]"
    by (simp add: groupby_sum_def group_keys_def List.map_filter_def nov1_def nov2_def
        date_of_def ns_per_day_def)
  then have "hours_per_calendar_day (data example_month) =
      Inr [(19297 * ns_per_day, 42 / 60), (19298 * ns_per_day, (1 / 2) / 60)]"
    by (simp add: hours_per_calendar_day_def trip_minutes_example index_example)
  then show "hours_per_calendar_day (data example_month) = Inr [(nov1, 7 / 10), (nov2, 1 / 120)]"
    by (simp add: nov1_def nov2_def ns_per_day_def)
qed


section \<open>What the methods leave of the table\<close>

lemma update_keeps_others:
  "filter (\<lambda>(n, vs). n \<noteq> k) (AList.update k v al) = filter (\<lambda>(n, vs). n \<noteq> k) al"
  by (induction al) auto

lemma get_most_popular_stations_frame: "snd (get_most_popular_stations self) = self"
  by (simp add: get_most_popular_stations_def Let_def split: sum.splits)

lemma get_uses_from_most_populars_frame: "snd (get_uses_from_most_populars self) = self"
proof -
  obtain r where "get_most_popular_stations self = (r, self)"
    using get_most_popular_stations_frame [of self]
    by (cases "get_most_popular_stations self") simp
  then show ?thesis
    by (simp add: get_uses_from_most_populars_def Let_def split: sum.splits)
qed

lemma resume_frame: "snd (resume self) = self"
proof -
  obtain r where p: "get_most_popular_stations self = (r, self)"
    using get_most_popular_stations_frame [of self]
    by (cases "get_most_popular_stations self") simp
  obtain u where "get_uses_from_most_populars self = (u, self)"
    using get_uses_from_most_populars_frame [of self]
    by (cases "get_uses_from_most_populars self") simp
  with p show ?thesis
    by (simp add: resume_def split: sum.splits)
qed

lemma day_time_frame: "snd (day_time self) = self"
  by (simp add: day_time_def Let_def split: sum.splits)

lemma total_usage_day_frame: "snd (total_usage_day self) = self"
  by (simp add: total_usage_day_def Let_def split: sum.splits)

lemma total_usage_day_station_unlock_frame: "snd (total_usage_day_station_unlock self) = self"
  by (simp add: total_usage_day_station_unlock_def Let_def split: sum.splits)

lemma collect_Inr:
  "collect rs = Inr xs \<Longrightarrow> rs = map Inr xs"
proof (induction rs arbitrary: xs)
  case Nil
  then show ?case by simp
next
  case (Cons r rs)
  then show ?case
    by (cases r) (auto split: sum.splits)
qed

lemma collect_map_Inr: "collect (map Inr xs) = Inr xs"
  by (induction xs) simp_all

lemma day_name_in_table: "\<exists>letter. map_of mapping (day_name t) = Some letter"
proof -
  have "0 \<le> (date_of t + 3) mod 7" and "(date_of t + 3) mod 7 < 7"
    by simp_all
  then have "nat ((date_of t + 3) mod 7) = 0 \<or> nat ((date_of t + 3) mod 7) = 1
      \<or> nat ((date_of t + 3) mod 7) = 2 \<or> nat ((date_of t + 3) mod 7) = 3
      \<or> nat ((date_of t + 3) mod 7) = 4 \<or> nat ((date_of t + 3) mod 7) = 5
      \<or> nat ((date_of t + 3) mod 7) = 6"
    by arith
  then show ?thesis
    unfolding day_name_def
    by (elim disjE) (simp_all add: day_names_def mapping_def)
qed

lemma collect_dia_missing:
  assumes "None \<in> set idx"
  shows "\<exists>e. collect (map dia_of idx) = Inl e"
proof (rule ccontr)
  assume "\<nexists>e. collect (map dia_of idx) = Inl e"
  then obtain dia where "collect (map dia_of idx) = Inr dia"
    by (cases "collect (map dia_of idx)") auto
  then have "map dia_of idx = map Inr dia"
    by (rule collect_Inr)
  then have "set (map dia_of idx) = set (map Inr dia)"
    by (simp only:)
  then have "dia_of ` set idx = Inr ` set dia"
    by simp
  with assms have "dia_of None \<in> Inr ` set dia"
    by blast
  then show False
    by (auto simp: dia_of_def)
qed

lemma collect_dia_total:
  assumes "None \<notin> set idx"
  shows "\<exists>dia. collect (map dia_of idx) = Inr dia \<and> length dia = length idx"
proof -
  have "\<exists>l. dia_of i = Inr l" if "i \<in> set idx" for i
  proof -
    from that assms have "i \<noteq> None"
      by meson
    then obtain t where "i = Some t"
      by blast
    then show ?thesis
      using day_name_in_table [of t] by (auto simp: dia_of_def)
  qed
  then have "\<exists>dia. map dia_of idx = map Inr dia"
  proof (induction idx)
    case Nil
    then show ?case by simp
  next
    case (Cons i idx)
    then obtain l dia where "dia_of i = Inr l" and "map dia_of idx = map Inr dia"
      by (metis list.set_intros(1,2))
    then have "map dia_of (i # idx) = map Inr (l # dia)"
      by simp
    then show ?case by blast
  qed
  then obtain dia where d: "map dia_of idx = map Inr dia"
    by blast
  then have "length dia = length idx"
    by (metis length_map)
  with d show ?thesis
    by (simp add: collect_map_Inr)
qed

lemma weekday_time_Inl:
  "collect (map dia_of (index (data self))) = Inl e \<Longrightarrow> weekday_time self = (Inl e, self)"
  by (simp add: weekday_time_def)

lemma weekday_time_Inr:
  "collect (map dia_of (index (data self))) = Inr dia \<Longrightarrow>
     snd (weekday_time self) = self\<lparr>data := set_column (data self) ''dia'' (map StrV dia)\<rparr>"
  by (simp add: weekday_time_def Let_def split: sum.splits)

lemma no_dia_example: "get_column (data example_month) ''dia'' = Inl (KeyError ''dia'')"
proof -
  have "map fst (columns (data example_month)) = csv_columns"
    using raw_table_example
    by (simp add: example_month_def BiciMad_def names_clean raw_table_def)
  then have "''dia'' \<notin> fst ` set (columns (data example_month))"
    by (simp add: csv_columns_def flip: set_map)
  then have "map_of (columns (data example_month)) ''dia'' = None"
    by (simp add: map_of_eq_None_iff)
  then show ?thesis
    by (simp add: get_column_def)
qed

lemma dia_example:
  "collect (map dia_of (index (data example_month))) =
     Inr [''M'', ''M'', ''M'', ''M'', ''M'', ''X'']"
proof -
  have "dia_of (Some nov1) = Inr ''M''" and "dia_of (Some nov2) = Inr ''X''"
    by (simp_all add: dia_of_def day_name_def date_of_def nov1_def nov2_def ns_per_day_def
        day_names_def mapping_def)
  then show ?thesis
    by (simp add: index_example)
qed

lemma weekday_time_example:
  "get_column (data (snd (weekday_time example_month))) ''dia'' =
     Inr [StrV ''M'', StrV ''M'', StrV ''M'', StrV ''M'', StrV ''M'', StrV ''X'']"
  by (simp add: weekday_time_Inr [OF dia_example] get_column_def set_column_def update_conv')

text \<open>
  C3, as stated, fails for \<open>weekday_time\<close>: the table of the example month has no
  column \<^verbatim>\<open>dia\<close> before the call and has one after it.
\<close>

theorem weekday_time_counterexample:
  "get_column (data example_month) ''dia'' = Inl (KeyError ''dia'')
   \<and> get_column (data (snd (weekday_time example_month))) ''dia'' =
       Inr [StrV ''M'', StrV ''M'', StrV ''M'', StrV ''M'', StrV ''M'', StrV ''X'']
   \<and> snd (weekday_time example_month) \<noteq> example_month"
proof -
  have "snd (weekday_time example_month) \<noteq> example_month"
  proof
    assume "snd (weekday_time example_month) = example_month"
    then have "get_column (data (snd (weekday_time example_month))) ''dia''
        = get_column (data example_month) ''dia''"
      by simp
    then show False
      by (simp add: weekday_time_example no_dia_example)
  qed
  then show ?thesis
    by (simp add: weekday_time_example no_dia_example)
qed

lemma index_undated:
  "index (data (BiciMad whole_float_str 11 22 undated_raw)) =
     [None, Some nov1, Some nov1, Some nov1, Some nov1, Some nov2]"
proof -
  have "notna_any undated_raw = [True, True, True, False, True, True, True]"
    by (simp add: notna_any_def undated_raw_def example_raw_def)
  then have "index (dropna_all undated_raw) =
      [None, Some nov1, Some nov1, Some nov1, Some nov1, Some nov2]"
    unfolding dropna_all_def
    by (simp add: filter_frame_def select_rows_def undated_raw_def)
  then show ?thesis
    by (simp add: BiciMad_def index_clean)
qed


lemma dia_of_Some: "dia_of (Some t) = Inr (weekday_letter t)"
proof -
  have "0 \<le> (date_of t + 3) mod 7" and "(date_of t + 3) mod 7 < 7"
    by simp_all
  then have "nat ((date_of t + 3) mod 7) = 0 \<or> nat ((date_of t + 3) mod 7) = 1
      \<or> nat ((date_of t + 3) mod 7) = 2 \<or> nat ((date_of t + 3) mod 7) = 3
      \<or> nat ((date_of t + 3) mod 7) = 4 \<or> nat ((date_of t + 3) mod 7) = 5
      \<or> nat ((date_of t + 3) mod 7) = 6"
    by arith
  then show ?thesis
    unfolding dia_of_def day_name_def weekday_letter_def
    by (elim disjE) (simp_all add: day_names_def mapping_def)
qed

lemma collect_dia_first_missing:
  "None \<in> set idx \<Longrightarrow> collect (map dia_of idx) = Inl (KeyError ''nan'')"
proof (induction idx)
  case Nil
  then show ?case by simp
next
  case (Cons i idx)
  show ?case
  proof (cases i)
    case None
    then show ?thesis by (simp add: dia_of_def)
  next
    case (Some t)
    with Cons.prems have "None \<in> set idx"
      by auto
    then have "collect (map dia_of idx) = Inl (KeyError ''nan'')"
      by (rule Cons.IH)
    with Some show ?thesis
      by (simp add: dia_of_Some)
  qed
qed

lemma collect_dia_letters:
  "None \<notin> set idx \<Longrightarrow>
     \<exists>dia. collect (map dia_of idx) = Inr dia \<and> map StrV dia = dia_column idx"
proof (induction idx)
  case Nil
  then show ?case by (simp add: dia_column_def)
next
  case (Cons i idx)
  from Cons.prems have rest: "None \<notin> set idx"
    by simp
  from Cons.prems obtain t where i: "i = Some t"
    by (cases i) simp_all
  from rest obtain dia
    where d: "collect (map dia_of idx) = Inr dia" "map StrV dia = dia_column idx"
    using Cons.IH by blast
  from i d
  have "collect (map dia_of (i # idx)) = Inr (weekday_letter t # dia)"
    and "map StrV (weekday_letter t # dia) = dia_column (i # idx)"
    by (simp_all add: dia_of_Some dia_column_def)
  then show ?case by blast
qed

lemma update_absent: "k \<notin> fst ` set al \<Longrightarrow> AList.update k v al = al @ [(k, v)]"
  by (induction al) auto

lemma weekday_time_table:
  assumes "None \<notin> set (index (data self))"
  shows "snd (weekday_time self) =
      self\<lparr>data := set_column (data self) ''dia'' (dia_column (index (data self)))\<rparr>"
proof -
  from collect_dia_letters [OF assms] obtain dia
    where "collect (map dia_of (index (data self))) = Inr dia"
      and "map StrV dia = dia_column (index (data self))"
    by blast
  then show ?thesis
    using weekday_time_Inr [of self dia] by simp
qed

lemma dia_column_example:
  "dia_column (index (data example_month)) =
     [StrV ''M'', StrV ''M'', StrV ''M'', StrV ''M'', StrV ''M'', StrV ''X'']"
  by (simp add: index_example dia_column_def weekday_letter_def date_of_def nov1_def nov2_def
      ns_per_day_def)

text \<open>
  C3, as amended. \<open>resume\<close>, \<open>get_most_popular_stations\<close>,
  \<open>get_uses_from_most_populars\<close>, \<open>day_time\<close>, \<open>total_usage_day\<close> and
  \<open>total_usage_day_station_unlock\<close> leave the instance as it was. When a timestamp of
  the index is missing, \<open>weekday_time\<close> raises a key error and leaves the instance as it
  was. Otherwise it leaves the month, the year, the index and, in their order, all the
  columns but \<^verbatim>\<open>dia\<close> as they were, and the table holds afterwards a column \<^verbatim>\<open>dia\<close> with
  the weekday letter of every row: behind the other columns when the table had no such
  column, in the place of the old one when it had.
\<close>

theorem aggregations_frame:
  "snd (resume self) = self
   \<and> snd (get_most_popular_stations self) = self
   \<and> snd (get_uses_from_most_populars self) = self
   \<and> snd (day_time self) = self
   \<and> snd (total_usage_day self) = self
   \<and> snd (total_usage_day_station_unlock self) = self
   \<and> (None \<in> set (index (data self)) \<longrightarrow>
        weekday_time self = (Inl (KeyError ''nan''), self))
   \<and> (None \<notin> set (index (data self)) \<longrightarrow>
        month_of (snd (weekday_time self)) = month_of self
        \<and> year_of (snd (weekday_time self)) = year_of self
        \<and> index (data (snd (weekday_time self))) = index (data self)
        \<and> get_column (data (snd (weekday_time self))) ''dia''
            = Inr (dia_column (index (data self)))
        \<and> filter (\<lambda>(name, vs). name \<noteq> ''dia'') (columns (data (snd (weekday_time self))))
            = filter (\<lambda>(name, vs). name \<noteq> ''dia'') (columns (data self))
        \<and> (''dia'' \<notin> fst ` set (columns (data self)) \<longrightarrow>
             columns (data (snd (weekday_time self)))
               = columns (data self) @ [(''dia'', dia_column (index (data self)))])
        \<and> (''dia'' \<in> fst ` set (columns (data self)) \<longrightarrow>
             map fst (columns (data (snd (weekday_time self))))
               = map fst (columns (data self))))"
proof -
  have m: "weekday_time self = (Inl (KeyError ''nan''), self)"
    if "None \<in> set (index (data self))"
    using collect_dia_first_missing [OF that] by (rule weekday_time_Inl)
  have t: "month_of (snd (weekday_time self)) = month_of self
        \<and> year_of (snd (weekday_time self)) = year_of self
        \<and> index (data (snd (weekday_time self))) = index (data self)
        \<and> get_column (data (snd (weekday_time self))) ''dia''
            = Inr (dia_column (index (data self)))
        \<and> filter (\<lambda>(name, vs). name \<noteq> ''dia'') (columns (data (snd (weekday_time self))))
            = filter (\<lambda>(name, vs). name \<noteq> ''dia'') (columns (data self))
        \<and> (''dia'' \<notin> fst ` set (columns (data self)) \<longrightarrow>
             columns (data (snd (weekday_time self)))
               = columns (data self) @ [(''dia'', dia_column (index (data self)))])
        \<and> (''dia'' \<in> fst ` set (columns (data self)) \<longrightarrow>
             map fst (columns (data (snd (weekday_time self))))
               = map fst (columns (data self)))"
    if "None \<notin> set (index (data self))"
    unfolding weekday_time_table [OF that]
    by (simp add: set_column_def get_column_def update_conv' update_keeps_others
        update_absent update_keys)
  from m t show ?thesis
    by (simp add: resume_frame get_most_popular_stations_frame
        get_uses_from_most_populars_frame day_time_frame total_usage_day_frame
        total_usage_day_station_unlock_frame)
qed

theorem aggregations_frame_witness:
  "None \<notin> set (index (data example_month))
   \<and> ''dia'' \<notin> fst ` set (columns (data example_month))
   \<and> columns (data (snd (weekday_time example_month))) =
       columns (data example_month)
         @ [(''dia'', [StrV ''M'', StrV ''M'', StrV ''M'', StrV ''M'', StrV ''M'', StrV ''X''])]
   \<and> None \<notin> set (index (data (snd (weekday_time example_month))))
   \<and> ''dia'' \<in> fst ` set (columns (data (snd (weekday_time example_month))))
   \<and> map fst (columns (data (snd (weekday_time (snd (weekday_time example_month))))))
       = map fst (columns (data (snd (weekday_time example_month))))
   \<and> None \<in> set (index (data (BiciMad whole_float_str 11 22 undated_raw)))
   \<and> weekday_time (BiciMad whole_float_str 11 22 undated_raw)
       = (Inl (KeyError ''nan''), BiciMad whole_float_str 11 22 undated_raw)
   \<and> snd (resume example_month) = example_month"
proof -
  have a: "None \<notin> set (index (data example_month))"
    by (simp add: index_example)
  have b: "''dia'' \<notin> fst ` set (columns (data example_month))"
    using no_dia_example
    by (auto simp: get_column_def map_of_eq_None_iff split: option.splits)
  note f1 = aggregations_frame [of example_month]
  from a b f1 have c: "columns (data (snd (weekday_time example_month))) =
       columns (data example_month)
         @ [(''dia'', [StrV ''M'', StrV ''M'', StrV ''M'', StrV ''M'', StrV ''M'', StrV ''X''])]"
    by (simp add: dia_column_example)
  from a f1 have d: "None \<notin> set (index (data (snd (weekday_time example_month))))"
    by simp
  from c have e: "''dia'' \<in> fst ` set (columns (data (snd (weekday_time example_month))))"
    by simp
  from d e aggregations_frame [of "snd (weekday_time example_month)"]
  have g: "map fst (columns (data (snd (weekday_time (snd (weekday_time example_month))))))
       = map fst (columns (data (snd (weekday_time example_month))))"
    by blast
  have h: "None \<in> set (index (data (BiciMad whole_float_str 11 22 undated_raw)))"
    by (simp add: index_undated)
  with aggregations_frame [of "BiciMad whole_float_str 11 22 undated_raw"]
  have i: "weekday_time (BiciMad whole_float_str 11 22 undated_raw)
       = (Inl (KeyError ''nan''), BiciMad whole_float_str 11 22 undated_raw)"
    by blast
  from f1 have j: "snd (resume example_month) = example_month"
    by blast
  from a b c d e g h i j show ?thesis
    by blast
qed

end
